theory Spec2Isabelle
  imports Complex_Main "HOL-Library.Word"
begin

section \<open>JavaScript strings\<close>

text \<open>
  A JavaScript string is a sequence of UTF-16 code units. The regular expressions of the
  program have no \<open>u\<close> flag, so they work on code units too. ASCII literals of the source
  are written \<open>js ''...''\<close>; the double quote, the backslash, the backtick and the newline
  are given by their code.
\<close>

type_synonym jschar = "16 word"
type_synonym jsstring = "jschar list"

definition js :: "string \<Rightarrow> jsstring" where
  "js s = map of_char s"

definition NL :: jschar where "NL = 0x0A"
definition SP :: jschar where "SP = 0x20"
definition DQUOTE :: jschar where "DQUOTE = 0x22"
definition BACKTICK :: jschar where "BACKTICK = 0x60"

text \<open>
  The class \<open>\s\<close> of a regular expression, which is also what \<open>String.prototype.trim\<close>
  strips: WhiteSpace and LineTerminator of ECMAScript.
\<close>

definition is_space :: "jschar \<Rightarrow> bool" where
  "is_space c = (c \<in> set [0x09, 0x0A, 0x0B, 0x0C, 0x0D, 0x20, 0xA0, 0x1680,
       0x2000, 0x2001, 0x2002, 0x2003, 0x2004, 0x2005, 0x2006, 0x2007, 0x2008, 0x2009, 0x200A,
       0x2028, 0x2029, 0x202F, 0x205F, 0x3000, 0xFEFF])"

text \<open>The characters that \<open>.\<close> does not match without the \<open>s\<close> flag.\<close>

definition is_line_terminator :: "jschar \<Rightarrow> bool" where
  "is_line_terminator c = (c \<in> set [0x0A, 0x0D, 0x2028, 0x2029])"

text \<open>\<open>str.trim()\<close>\<close>

definition trim :: "jsstring \<Rightarrow> jsstring" where
  "trim s = rev (dropWhile is_space (rev (dropWhile is_space s)))"

text \<open>\<open>str.startsWith(p)\<close>\<close>

definition startsWith :: "jsstring \<Rightarrow> jsstring \<Rightarrow> bool" where
  "startsWith s p = (take (length p) s = p)"

text \<open>\<open>str.split("\n")\<close>: never empty, the empty string gives one empty line.\<close>

fun split_on :: "jschar \<Rightarrow> jsstring \<Rightarrow> jsstring list" where
  "split_on d [] = [[]]"
| "split_on d (c # s) =
     (if c = d then [] # split_on d s
      else (case split_on d s of [] \<Rightarrow> [[c]] | l # ls \<Rightarrow> (c # l) # ls))"

text \<open>\<open>arr.join(sep)\<close>\<close>

fun join :: "jsstring \<Rightarrow> jsstring list \<Rightarrow> jsstring" where
  "join sep [] = []"
| "join sep [x] = x"
| "join sep (x # y # ys) = x @ sep @ join sep (y # ys)"

section \<open>File names\<close>

text \<open>
  \<^verbatim>\<open>
  function sanitizeFileName(title) {
    return title
      .replace(/[<>:"\/\\|?*\n]/g, " ")
      .replace(/\s+/g, " ")
      .trim();
  }
  \<close>
\<close>

text \<open>The class \<open>[<>:"\/\\|?*\n]\<close>.\<close>

definition invalid_char :: "jschar \<Rightarrow> bool" where
  "invalid_char c = (c \<in> set [0x3C, 0x3E, 0x3A, 0x22, 0x2F, 0x5C, 0x7C, 0x3F, 0x2A, 0x0A])"

text \<open>\<open>.replace(/[<>:"\/\\|?*\n]/g, " ")\<close>\<close>

definition replace_invalid :: "jsstring \<Rightarrow> jsstring" where
  "replace_invalid s = map (\<lambda>c. if invalid_char c then SP else c) s"

text \<open>\<open>.replace(/\s+/g, " ")\<close>: each maximal run of white space becomes one space.\<close>

function collapse_ws :: "jsstring \<Rightarrow> jsstring" where
  "collapse_ws [] = []"
| "collapse_ws (c # s) =
     (if is_space c then SP # collapse_ws (dropWhile is_space s) else c # collapse_ws s)"
  by pat_completeness auto
termination
  by (relation "measure length") (auto simp: length_dropWhile_le less_Suc_eq_le)

definition sanitizeFileName :: "jsstring \<Rightarrow> jsstring" where
  "sanitizeFileName title = trim (collapse_ws (replace_invalid title))"

text \<open>
  \<^verbatim>\<open>
  const sanitizedTitle = sanitizeFileName(conversation.title) || conversation.conversation_id;
  const fileName = `${sanitizedTitle}.md`;
  \<close>
  The empty string is the only falsy string.
\<close>

definition fileName :: "jsstring \<Rightarrow> jsstring \<Rightarrow> jsstring" where
  "fileName title conversation_id =
     (let sanitized = sanitizeFileName title;
          sanitizedTitle = (if sanitized \<noteq> [] then sanitized else conversation_id)
      in sanitizedTitle @ js ''.md'')"

section \<open>Regular expressions\<close>

text \<open>
  \<open>str.replace(/re/g, f)\<close> for a regular expression that never matches the empty string:
  the text is scanned from the left; \<open>match s\<close> is the match of the expression at the start
  of \<open>s\<close>, if there is one, as the number of code units matched and what the replacer
  function reads of the match. A match is replaced by \<open>f\<close> of it and the scan goes on
  behind it; a code unit where nothing matches is copied. The result of a replacer
  function is inserted as it is.
\<close>

fun replace_all :: "(jsstring \<Rightarrow> (nat \<times> 'a) option) \<Rightarrow> ('a \<Rightarrow> jsstring) \<Rightarrow> jsstring \<Rightarrow> jsstring" where
  "replace_all match f [] = []"
| "replace_all match f (c # s) =
     (case match (c # s) of
        None \<Rightarrow> c # replace_all match f s
      | Some (n, m) \<Rightarrow> f m @ replace_all match f (drop (n - 1) s))"

text \<open>\<open>/re/.test(str)\<close>: the expression matches at some position of the text.\<close>

fun regex_test :: "(jsstring \<Rightarrow> bool) \<Rightarrow> jsstring \<Rightarrow> bool" where
  "regex_test match [] = match []"
| "regex_test match (c # s) = (match (c # s) \<or> regex_test match s)"

text \<open>
  \<open>str.replace("unknown", "")\<close> with a string pattern: only the first occurrence of the
  pattern, wherever it stands, is replaced.
\<close>

fun replace_first :: "jsstring \<Rightarrow> jsstring \<Rightarrow> jsstring \<Rightarrow> jsstring" where
  "replace_first pat rep [] = (if pat = [] then rep else [])"
| "replace_first pat rep (c # s) =
     (if startsWith (c # s) pat then rep @ drop (length pat) (c # s)
      else c # replace_first pat rep s)"

section \<open>Text helpers\<close>

text \<open>
  \<^verbatim>\<open>
  function wrapHtmlTagsInBackticks(text) {
    return text.replace(/<[^>]+>/g, (match) => `\`${match}\``);
  }
  \<close>
\<close>

definition html_tag_match :: "jsstring \<Rightarrow> (nat \<times> jsstring) option" where
  "html_tag_match s =
     (case s of
        [] \<Rightarrow> None
      | c # t \<Rightarrow>
          (let inner = takeWhile (\<lambda>x. x \<noteq> 0x3E) t
           in if c = 0x3C \<and> inner \<noteq> [] \<and> length inner < length t
              then Some (length inner + 2, take (length inner + 2) s)
              else None))"

definition wrapHtmlTagsInBackticks :: "jsstring \<Rightarrow> jsstring" where
  "wrapHtmlTagsInBackticks text =
     replace_all html_tag_match (\<lambda>m. [BACKTICK] @ m @ [BACKTICK]) text"

text \<open>
  \<^verbatim>\<open>
  function wrapLinksInMarkdown(text) {
    return text.replace(/https?:\/\/\S+/g, (url) => `[${url}](${url})`);
  }
  \<close>
  The match at the start of a text: the scheme, then every code unit up to the next white
  space or the end of the text, at least one.
\<close>

definition url_match :: "jsstring \<Rightarrow> (nat \<times> jsstring) option" where
  "url_match s =
     (let k = (if startsWith s (js ''http://'') then 7
               else if startsWith s (js ''https://'') then 8 else 0);
          rest = takeWhile (\<lambda>c. \<not> is_space c) (drop k s)
      in if k = 0 \<or> rest = [] then None
         else Some (k + length rest, take (k + length rest) s))"

definition wrapLinksInMarkdown :: "jsstring \<Rightarrow> jsstring" where
  "wrapLinksInMarkdown text =
     replace_all url_match (\<lambda>url. js ''['' @ url @ js '']('' @ url @ js '')'') text"

text \<open>
  \<^verbatim>\<open>
  function indent(str) {
    return str.split("\n").map((v) => (v.trim() ? `    ${v}\n` : "")).join("");
  }
  function blockquote(str) {
    return str.split("\n").map((v) => (v ? `> ${v}` : ">")).join("\n");
  }
  \<close>
\<close>

definition indent :: "jsstring \<Rightarrow> jsstring" where
  "indent str =
     concat (map (\<lambda>v. if trim v \<noteq> [] then js ''    '' @ v @ [NL] else []) (split_on NL str))"

definition blockquote :: "jsstring \<Rightarrow> jsstring" where
  "blockquote str =
     join [NL] (map (\<lambda>v. if v \<noteq> [] then js ''> '' @ v else js ''>'') (split_on NL str))"

section \<open>The conversation archive\<close>

text \<open>
  The archive is parsed JSON. A field that may be absent is an option; a field read where
  a string is expected holds a string when it is there. In a template literal or a string
  concatenation an absent field reads \<open>undefined\<close>; a string is falsy when it is empty.
\<close>

definition tmpl :: "jsstring option \<Rightarrow> jsstring" where
  "tmpl v = (case v of None \<Rightarrow> js ''undefined'' | Some s \<Rightarrow> s)"

definition truthy :: "jsstring option \<Rightarrow> bool" where
  "truthy v = (case v of None \<Rightarrow> False | Some s \<Rightarrow> s \<noteq> [])"

record citation =
  ref_id :: "jsstring option"
  source_id :: "jsstring option"
  cit_id :: "jsstring option"
  cit_url :: "jsstring option"
  cit_title :: "jsstring option"
  cit_name :: "jsstring option"
  cit_detail :: "jsstring option"

record search_entry =
  entry_url :: "jsstring option"
  entry_title :: "jsstring option"

text \<open>
  A part of a multimodal message: a string, an image pointer (width and height as
  JavaScript prints the numbers, and the prompt of \<open>metadata.dalle\<close> if there is one), or
  another object with its \<open>content_type\<close>.
\<close>

datatype part =
    StringPart jsstring
  | ImageAssetPointer jsstring jsstring "jsstring option"
  | OtherPart "jsstring option"

text \<open>
  The content of a message, by its \<open>content_type\<close>. \<open>OtherContent\<close> is a content of any
  other type, with its \<open>parts\<close> array if it has one.
\<close>

datatype content =
    Text "jsstring list option"
  | Code "jsstring option" "jsstring option"
  | ExecutionOutput "jsstring option"
  | MultimodalText "part list option"
  | TetherBrowsingDisplay "jsstring option" "jsstring option"
  | TetherQuote "jsstring option" "jsstring option" "jsstring option"
  | SystemError "jsstring option" "jsstring option"
  | UserEditableContext
  | Thoughts "(jsstring option \<times> jsstring option) list option"
  | ReasoningRecap "jsstring option"
  | SonicWebpage "jsstring option" "jsstring option" "jsstring option"
  | OtherContent "part list option"

record author =
  role :: jsstring
  author_name :: "jsstring option"

text \<open>
  \<open>node.message.metadata || {}\<close>: a message without metadata has every field absent.
  \<open>wrap_callout\<close> is the key \<open>__wrap_callout\<close>, which the implementation in \<open>cli.js\<close>
  writes on the metadata and which no export carries.
\<close>

record metadata =
  is_visually_hidden_from_conversation :: bool
  reasoning_status :: "jsstring option"
  model_slug :: "jsstring option"
  citations :: "citation list option"
  search_result_groups :: "search_entry list option list option"
  wrap_callout :: bool

record message =
  msg_author :: author
  msg_content :: "content option"
  msg_metadata :: metadata

record node =
  children :: "jsstring list"
  node_message :: "message option"

text \<open>
  The mapping of a conversation is a JavaScript object: its keys are distinct and are
  listed here in the order of \<open>Object.keys\<close>. Time stamps are epoch seconds.
\<close>

record conversation =
  title :: jsstring
  conversation_id :: jsstring
  create_time :: rat
  update_time :: rat
  mapping :: "(jsstring \<times> node) list"

text \<open>
  A plain object has, besides its own keys, the properties of \<open>Object.prototype\<close>:
  \<open>obj[name]\<close> finds an own key first and an inherited property otherwise. In Node.js
  the inherited properties are eleven functions and the accessor \<open>__proto__\<close>, whose
  getter gives \<open>Object.prototype\<close> and whose setter ignores a string, so that
  \<open>obj["__proto__"] = s\<close> binds nothing when \<open>s\<close> is a string. Each of them is truthy and
  none has a property \<open>children\<close> or \<open>message\<close>. \<open>inherited name\<close> is the inherited
  property of that name, converted to a string as a replacement callback's result is.
\<close>

definition prototype_functions :: "jsstring list" where
  "prototype_functions =
     map js [''constructor'', ''__defineGetter__'', ''__defineSetter__'', ''hasOwnProperty'',
             ''__lookupGetter__'', ''__lookupSetter__'', ''isPrototypeOf'',
             ''propertyIsEnumerable'', ''toString'', ''valueOf'', ''toLocaleString'']"

definition inherited :: "jsstring \<Rightarrow> jsstring option" where
  "inherited name =
     (if name = js ''__proto__'' then Some (js ''[object Object]'')
      else if name = js ''constructor'' then Some (js ''function Object() { [native code] }'')
      else if name \<in> set prototype_functions
        then Some (js ''function '' @ name @ js ''() { [native code] }'')
      else None)"

text \<open>
  \<open>obj[name]\<close> and \<open>obj[name] = v\<close> on an object whose own values are strings.
\<close>

definition get_property :: "(jsstring \<rightharpoonup> jsstring) \<Rightarrow> jsstring \<Rightarrow> jsstring option" where
  "get_property obj name = (case obj name of Some v \<Rightarrow> Some v | None \<Rightarrow> inherited name)"

definition set_property :: "(jsstring \<rightharpoonup> jsstring) \<Rightarrow> jsstring \<Rightarrow> jsstring \<Rightarrow> (jsstring \<rightharpoonup> jsstring)" where
  "set_property obj name v = (if name = js ''__proto__'' then obj else obj(name \<mapsto> v))"

text \<open>
  What the program calls of the JavaScript runtime and of Node.js without defining it:
  \<open>JSON.stringify\<close> of a node, \<open>JSON.parse\<close> (the keys of the value when it is an object
  or an array, \<open>None\<close> when the text does not parse), \<open>new Date(t * 1000).toISOString()\<close>
  and \<open>path.join\<close>.
\<close>

datatype json = JNull | JPrimitive | JArray nat | JObject "jsstring list"

record runtime =
  JSON_stringify :: "node \<Rightarrow> jsstring"
  JSON_parse :: "jsstring \<Rightarrow> json option"
  toISOString :: "rat \<Rightarrow> jsstring"
  path_join :: "jsstring \<Rightarrow> jsstring \<Rightarrow> jsstring"

text \<open>An exception of the runtime, with its message.\<close>

datatype js_error = TypeError jsstring

definition cannot_read :: "string \<Rightarrow> js_error" where
  "cannot_read prop =
     TypeError (js ''Cannot read properties of undefined (reading '' @ [0x27] @ js prop
                @ [0x27] @ js '')'')"

definition error_message :: "js_error \<Rightarrow> jsstring" where
  "error_message e = (case e of TypeError m \<Rightarrow> m)"

section \<open>Citations and search results\<close>

text \<open>
  \<^verbatim>\<open>
  function safeTitle(url, title) {
    const t = (title || "").trim();
    return t ? t : url.split("/").pop();
  }
  \<close>
\<close>

definition safeTitle :: "jsstring \<Rightarrow> jsstring option \<Rightarrow> jsstring" where
  "safeTitle url title_opt =
     (let t = trim (case title_opt of None \<Rightarrow> [] | Some s \<Rightarrow> s)
      in if t \<noteq> [] then t else last (split_on 0x2F url))"

definition markdown_link :: "jsstring \<Rightarrow> jsstring \<Rightarrow> jsstring" where
  "markdown_link label target = js ''['' @ label @ js '']('' @ target @ js '')''"

text \<open>
  \<^verbatim>\<open>
  function extractSearchResults(metadata = {}) {
    if (!Array.isArray(metadata.search_result_groups)) return "";
    const links = [];
    for (const group of metadata.search_result_groups) {
      if (!Array.isArray(group.entries)) continue;
      for (const entry of group.entries) {
        if (entry.url) {
          links.push(`[${safeTitle(entry.url, entry.title)}](${entry.url})`);
        }
      }
    }
    return links.length ? links.join("\n") + "\n\n" : "";
  }
  \<close>
\<close>

definition entry_links :: "search_entry list \<Rightarrow> jsstring list" where
  "entry_links entries =
     concat (map (\<lambda>entry. case entry_url entry of
                     None \<Rightarrow> []
                   | Some u \<Rightarrow> if u \<noteq> [] then [markdown_link (safeTitle u (entry_title entry)) u]
                              else []) entries)"

definition extractSearchResults :: "metadata \<Rightarrow> jsstring" where
  "extractSearchResults meta =
     (case search_result_groups meta of
        None \<Rightarrow> []
      | Some groups \<Rightarrow>
          (let links = concat (map (\<lambda>group. case group of None \<Rightarrow> [] | Some entries \<Rightarrow> entry_links entries) groups)
           in if links \<noteq> [] then join [NL] links @ [NL, NL] else []))"

text \<open>
  \<^verbatim>\<open>
  function buildCitationMap(metadata = {}) {
    const map = {};
    if (Array.isArray(metadata.citations)) {
      for (const citation of metadata.citations) {
        const key = citation.ref_id || citation.source_id || citation.id;
        if (key && citation.url) {
          map[key] = `[${safeTitle(citation.url, citation.title)}](${citation.url})`;
        }
      }
    }
    return map;
  }
  \<close>
  The map holds the own keys of the object \<open>map\<close>, which starts empty; \<open>map[key] = ...\<close>
  binds every key but \<open>__proto__\<close>.
\<close>

definition citation_key :: "citation \<Rightarrow> jsstring option" where
  "citation_key c =
     (if truthy (ref_id c) then ref_id c
      else if truthy (source_id c) then source_id c
      else if truthy (cit_id c) then cit_id c
      else None)"

definition citation_link :: "citation \<Rightarrow> jsstring" where
  "citation_link c =
     (case cit_url c of
        None \<Rightarrow> []
      | Some u \<Rightarrow> markdown_link (safeTitle u (cit_title c)) u)"

definition citation_step :: "(jsstring \<rightharpoonup> jsstring) \<Rightarrow> citation \<Rightarrow> (jsstring \<rightharpoonup> jsstring)" where
  "citation_step m c =
     (case citation_key c of
        None \<Rightarrow> m
      | Some key \<Rightarrow> if truthy (cit_url c) then set_property m key (citation_link c) else m)"

definition buildCitationMap :: "metadata \<Rightarrow> (jsstring \<rightharpoonup> jsstring)" where
  "buildCitationMap meta =
     (case citations meta of
        None \<Rightarrow> Map.empty
      | Some cs \<Rightarrow> foldl citation_step Map.empty cs)"

text \<open>
  \<^verbatim>\<open>
  function replaceCitationPlaceholders(text, citationMap) {
    if (!text) return text;
    return text.replace(/[\uE000-\uF8FF]cite[\uE000-\uF8FF](.*?)[\uE000-\uF8FF]/g,
      (_, id) => citationMap[id] || ""
    );
  }
  \<close>
  The match at the start of a text: a sentinel, \<open>cite\<close>, a sentinel, then the identifier,
  which the lazy \<open>.*?\<close> ends at the next sentinel and which holds no line terminator, then
  that sentinel. \<open>citationMap[id]\<close> finds an own key of the map or a property the map
  inherits.
\<close>

definition is_sentinel :: "jschar \<Rightarrow> bool" where
  "is_sentinel c = (0xE000 \<le> c \<and> c \<le> 0xF8FF)"

definition cite_match :: "jsstring \<Rightarrow> (nat \<times> jsstring) option" where
  "cite_match s =
     (case s of
        c0 # c1 # c2 # c3 # c4 # c5 # t \<Rightarrow>
          (let ident = takeWhile (\<lambda>c. \<not> is_sentinel c) t
           in if is_sentinel c0 \<and> [c1, c2, c3, c4] = js ''cite'' \<and> is_sentinel c5
                 \<and> length ident < length t \<and> (\<forall>c \<in> set ident. \<not> is_line_terminator c)
              then Some (length ident + 7, ident)
              else None)
      | _ \<Rightarrow> None)"

definition replaceCitationPlaceholders :: "jsstring \<Rightarrow> (jsstring \<rightharpoonup> jsstring) \<Rightarrow> jsstring" where
  "replaceCitationPlaceholders text citationMap =
     (if text = [] then text
      else replace_all cite_match
             (\<lambda>ident. case get_property citationMap ident of None \<Rightarrow> [] | Some link \<Rightarrow> link)
             text)"

text \<open>
  \<^verbatim>\<open>
  function extractCitations(metadata = {}) {
    if (!Array.isArray(metadata.citations)) return "";
    return "\n" + metadata.citations.map(citation => {
      return `> [${citation.name}](${citation.url})\n\n> ${citation.detail}\n`;
    }).join("\n");
  }
  \<close>
\<close>

definition extractCitations :: "metadata \<Rightarrow> jsstring" where
  "extractCitations meta =
     (case citations meta of
        None \<Rightarrow> []
      | Some cs \<Rightarrow>
          [NL] @ join [NL]
            (map (\<lambda>c. js ''> ['' @ tmpl (cit_name c) @ js '']('' @ tmpl (cit_url c) @ js '')''
                       @ [NL, NL] @ js ''> '' @ tmpl (cit_detail c) @ [NL]) cs))"

section \<open>Rendering one message\<close>

definition fence :: jsstring where
  "fence = [BACKTICK, BACKTICK, BACKTICK]"

text \<open>One part of a \<open>multimodal_text\<close> content.\<close>

fun render_part :: "part \<Rightarrow> jsstring" where
  "render_part (StringPart s) = s @ [NL, NL]"
| "render_part (ImageAssetPointer w h prompt) =
     js ''Image ('' @ w @ js ''x'' @ h @ js ''): ''
       @ (case prompt of None \<Rightarrow> [] | Some p \<Rightarrow> p) @ [NL, NL]"
| "render_part (OtherPart ct) = tmpl ct @ [NL, NL]"

text \<open>
  The \<open>switch (content.content_type)\<close> of \<open>nodeToMarkdown\<close>. Calling a method of an
  absent field raises a \<open>TypeError\<close>.
\<close>

fun render_content :: "content \<Rightarrow> js_error + jsstring" where
  "render_content (Text parts) =
     (case parts of None \<Rightarrow> Inl (cannot_read ''join'') | Some ps \<Rightarrow> Inr (join [NL] ps))"
| "render_content (Code language text) =
     (case language of
        None \<Rightarrow> Inl (cannot_read ''replace'')
      | Some l \<Rightarrow> Inr (fence @ replace_first (js ''unknown'') [] l @ [NL] @ tmpl text @ [NL] @ fence))"
| "render_content (ExecutionOutput text) = Inr (fence @ [NL] @ tmpl text @ [NL] @ fence)"
| "render_content (MultimodalText parts) =
     (case parts of
        None \<Rightarrow> Inl (cannot_read ''map'')
      | Some ps \<Rightarrow> Inr (concat (map render_part ps)))"
| "render_content (TetherBrowsingDisplay summary result) =
     Inr (fence @ [NL] @ (if truthy summary then tmpl summary @ [NL] else []) @ tmpl result
          @ [NL] @ fence)"
| "render_content (TetherQuote ttl url text) =
     Inr (blockquote (js ''['' @ (if truthy ttl then tmpl ttl else tmpl url) @ js '']('' @ tmpl url
                      @ js '')'' @ [NL, NL] @ tmpl text))"
| "render_content (SystemError name text) = Inr (tmpl name @ [NL, NL] @ tmpl text @ [NL, NL])"
| "render_content UserEditableContext = Inr []"
| "render_content (Thoughts thoughts) =
     (case thoughts of
        None \<Rightarrow> Inl (cannot_read ''map'')
      | Some ts \<Rightarrow>
          Inr (join [NL] (map (\<lambda>(summary, cnt). js ''##### '' @ tmpl summary @ [NL, NL]
                                   @ tmpl cnt @ [NL]) ts)))"
| "render_content (ReasoningRecap cnt) =
     (case cnt of None \<Rightarrow> Inl (cannot_read ''split'') | Some c \<Rightarrow> Inr (blockquote c))"
| "render_content (SonicWebpage ttl url text) =
     Inr (fence @ [NL] @ tmpl ttl @ js '' ('' @ tmpl url @ js '')'' @ [NL, NL] @ tmpl text
          @ [NL] @ fence)"
| "render_content (OtherContent parts) = Inr (js ''[object Object]'')"

text \<open>
  The signatures of internal tool commands: \<open>/"key"\s*:/s\<close> and \<open>/"url"/s\<close>, as
  matches at the start of a text.
\<close>

definition quoted :: "string \<Rightarrow> jsstring" where
  "quoted key = [DQUOTE] @ js key @ [DQUOTE]"

definition key_signature :: "string \<Rightarrow> jsstring \<Rightarrow> bool" where
  "key_signature key s =
     (startsWith s (quoted key)
      \<and> (case dropWhile is_space (drop (length (quoted key)) s) of
            [] \<Rightarrow> False
          | c # _ \<Rightarrow> c = 0x3A))"

definition tool_signature :: "jsstring \<Rightarrow> bool" where
  "tool_signature body =
     (regex_test (key_signature ''search_query'') body
      \<or> (regex_test (key_signature ''open'') body
          \<and> regex_test (\<lambda>s. startsWith s (quoted ''url'')) body)
      \<or> regex_test (key_signature ''find'') body
      \<or> regex_test (key_signature ''click'') body)"

text \<open>
  The body of the \<open>try\<close> block of \<open>nodeToMarkdown(node, { skipHeader })\<close>:
  \<^verbatim>\<open>
    const content = node.message?.content;
    if (!content) return "";
    let body;
    switch (content.content_type) { ... }
    const meta = node.message.metadata || {};
    const citationMap = buildCitationMap(meta);
    body = replaceCitationPlaceholders(body, citationMap);
    body = wrapLinksInMarkdown(body);
    const citations = extractCitations(meta);
    const results = extractSearchResults(meta);
    if (citations) body += citations;
    if (results) body += results;
    if (/"search_query"\s*:/s.test(body)) return "";
    if (/"open"\s*:/s.test(body) && /"url"/s.test(body)) return "";
    if (/"find"\s*:/s.test(body)) return "";
    if (/"click"\s*:/s.test(body)) return "";
    if (!body.trim()) return "";
    const author = node.message.author;
    if (author.role == "user") body = indent(body);
    if (skipHeader) { return `${body}`; }
    if (author.role === "tool") { return `${body}\n\n`; }
    return `## ${author.role}${author.name ? ` (${author.name})` : ""}\n\n${body}\n\n`;
  \<close>
\<close>

definition post_process :: "metadata \<Rightarrow> jsstring \<Rightarrow> jsstring" where
  "post_process meta body =
     (let citationMap = buildCitationMap meta;
          body1 = replaceCitationPlaceholders body citationMap;
          body2 = wrapLinksInMarkdown body1;
          citations = extractCitations meta;
          results = extractSearchResults meta
      in body2 @ citations @ results)"

definition wrap_role :: "author \<Rightarrow> bool \<Rightarrow> jsstring \<Rightarrow> jsstring" where
  "wrap_role author skipHeader body0 =
     (let body = (if role author = js ''user'' then indent body0 else body0)
      in if skipHeader then body
         else if role author = js ''tool'' then body @ [NL, NL]
         else js ''## '' @ role author
              @ (if truthy (author_name author) then js '' ('' @ tmpl (author_name author) @ js '')''
                 else [])
              @ [NL, NL] @ body @ [NL, NL])"

definition nodeToMarkdown_try :: "node \<Rightarrow> bool \<Rightarrow> js_error + jsstring" where
  "nodeToMarkdown_try nd skipHeader =
     (case node_message nd of
        None \<Rightarrow> Inr []
      | Some m \<Rightarrow>
          (case msg_content m of
             None \<Rightarrow> Inr []
           | Some cnt \<Rightarrow>
               (case render_content cnt of
                  Inl err \<Rightarrow> Inl err
                | Inr body0 \<Rightarrow>
                    (let body = post_process (msg_metadata m) body0
                     in if tool_signature body then Inr []
                        else if trim body = [] then Inr []
                        else Inr (wrap_role (msg_author m) skipHeader body)))))"

text \<open>
  The \<open>catch\<close> of \<open>nodeToMarkdown\<close>:
  \<^verbatim>\<open>
    } catch (err) {
      err.message += `\nNode: ${JSON.stringify(node)}`;
      throw err;
    }
  \<close>
\<close>

definition augment :: "runtime \<Rightarrow> node \<Rightarrow> js_error \<Rightarrow> js_error" where
  "augment rt nd err =
     (case err of TypeError msg \<Rightarrow> TypeError (msg @ [NL] @ js ''Node: '' @ JSON_stringify rt nd))"

definition nodeToMarkdown :: "runtime \<Rightarrow> node \<Rightarrow> bool \<Rightarrow> js_error + jsstring" where
  "nodeToMarkdown rt nd skipHeader =
     (case nodeToMarkdown_try nd skipHeader of
        Inl err \<Rightarrow> Inl (augment rt nd err)
      | Inr md \<Rightarrow> Inr md)"

section \<open>The visibility filter\<close>

text \<open>
  \<open>content.parts\<close> as \<open>join\<close> reads it, if the content has an array of parts: a string as
  it is, an object as \<open>[object Object]\<close>.
\<close>

fun part_string :: "part \<Rightarrow> jsstring" where
  "part_string (StringPart s) = s"
| "part_string _ = js ''[object Object]''"

fun content_parts :: "content \<Rightarrow> jsstring list option" where
  "content_parts (Text parts) = parts"
| "content_parts (MultimodalText parts) = map_option (map part_string) parts"
| "content_parts (OtherContent parts) = map_option (map part_string) parts"
| "content_parts _ = None"

text \<open>
  \<^verbatim>\<open>
    const suspectText = (() => {
      if (!content) return "";
      if (content.content_type === "code") return content.text || "";
      if (Array.isArray(content.parts)) return content.parts.join("\n");
      return "";
    })().trim();
  \<close>
\<close>

definition suspectText :: "content option \<Rightarrow> jsstring" where
  "suspectText cnt =
     trim (case cnt of
             None \<Rightarrow> []
           | Some (Code language text) \<Rightarrow> (case text of None \<Rightarrow> [] | Some t \<Rightarrow> t)
           | Some c \<Rightarrow> (case content_parts c of None \<Rightarrow> [] | Some ps \<Rightarrow> join [NL] ps))"

definition banned :: "jsstring list" where
  "banned = [js ''open'', js ''search_query'', js ''find'', js ''click'', js ''browser'',
             js ''code_interpreter'']"

text \<open>
  \<^verbatim>\<open>
    try {
      const obj = JSON.parse(suspectText);
      if (obj && typeof obj === "object") {
        const keys = Object.keys(obj);
        if (keys.some(k => banned.includes(k))) return false;
      }
    } catch (_) { }
  \<close>
  The keys of an array are its indices, none of which is banned.
\<close>

definition has_banned_key :: "runtime \<Rightarrow> jsstring \<Rightarrow> bool" where
  "has_banned_key rt text =
     (case JSON_parse rt text of
        Some (JObject keys) \<Rightarrow> list_ex (\<lambda>k. k \<in> set banned) keys
      | _ \<Rightarrow> False)"

text \<open>
  \<^verbatim>\<open>
  function shouldIncludeMessage(node) {
    if (!node || !node.message) return false;
    const meta = node.message.metadata || {};
    if (meta.is_visually_hidden_from_conversation) return false;
    if (meta.reasoning_status === "reasoning_ended") return false;
    if (node.message.author.role === "system"
        && !node.message.content?.parts?.join("").trim()) return false;
    if (node.message.author.role === "assistant") {
      ...
      if (/"search_query"\s*:/s.test(suspectText)) return false;
    }
    return true;
  }
  \<close>
\<close>

definition system_text :: "content option \<Rightarrow> jsstring" where
  "system_text cnt =
     (case cnt of
        None \<Rightarrow> []
      | Some c \<Rightarrow> (case content_parts c of None \<Rightarrow> [] | Some ps \<Rightarrow> trim (concat ps)))"

definition shouldIncludeMessage :: "runtime \<Rightarrow> node option \<Rightarrow> bool" where
  "shouldIncludeMessage rt nd_opt =
     (case nd_opt of
        None \<Rightarrow> False
      | Some nd \<Rightarrow>
          (case node_message nd of
             None \<Rightarrow> False
           | Some m \<Rightarrow>
               (let meta = msg_metadata m in
                if is_visually_hidden_from_conversation meta then False
                else if reasoning_status meta = Some (js ''reasoning_ended'') then False
                else if role (msg_author m) = js ''system'' \<and> system_text (msg_content m) = []
                  then False
                else if role (msg_author m) = js ''assistant'' then
                  (if has_banned_key rt (suspectText (msg_content m)) then False
                   else if regex_test (key_signature ''search_query'') (suspectText (msg_content m))
                     then False
                   else True)
                else True)))"

section \<open>The tree linearizer\<close>

text \<open>
  \<^verbatim>\<open>
  function getOrderedNodeIds(conversation) {
    const mapping = conversation.mapping;
    const ordered = [];
    function walk(id) {
      if (!id || !mapping[id]) return;
      ordered.push(id);
      const children = mapping[id].children || [];
      children.forEach(walk);
    }
    const rootId = mapping["client-created-root"]
      ? "client-created-root" : Object.keys(mapping)[0];
    walk(rootId);
    return ordered;
  }
  \<close>
  \<open>walk\<close> recurses as deep as the mapping leads it, and a node that is its own descendant
  leads it down without end. The runtime has room for a bounded number of nested calls and
  ends the run with a \<open>RangeError\<close> when a call exceeds it. The first argument of the
  model is the number of nested calls of \<open>walk\<close> there is room for, and \<open>None\<close> is that
  error. \<open>ordered\<close> is threaded through the calls.

  \<open>mapping[id]\<close> finds a node of the mapping, or a property that the mapping inherits:
  that one is truthy, so the identifier is pushed, and has no \<open>children\<close>.
\<close>

fun walk :: "nat \<Rightarrow> (jsstring \<times> node) list \<Rightarrow> jsstring \<Rightarrow> jsstring list \<Rightarrow> jsstring list option"
  and walk_each :: "nat \<Rightarrow> (jsstring \<times> node) list \<Rightarrow> jsstring list \<Rightarrow> jsstring list \<Rightarrow> jsstring list option"
where
  "walk 0 M i ordered = None"
| "walk (Suc n) M i ordered =
     (if i = [] then Some ordered
      else (case map_of M i of
              None \<Rightarrow> if inherited i \<noteq> None then Some (ordered @ [i]) else Some ordered
            | Some nd \<Rightarrow> walk_each n M (children nd) (ordered @ [i])))"
| "walk_each n M [] ordered = Some ordered"
| "walk_each n M (c # cs) ordered =
     (case walk n M c ordered of
        None \<Rightarrow> None
      | Some ordered' \<Rightarrow> walk_each n M cs ordered')"

definition rootId :: "(jsstring \<times> node) list \<Rightarrow> jsstring option" where
  "rootId M =
     (if map_of M (js ''client-created-root'') \<noteq> None then Some (js ''client-created-root'')
      else (case M of [] \<Rightarrow> None | (k, _) # _ \<Rightarrow> Some k))"

definition getOrderedNodeIds :: "nat \<Rightarrow> (jsstring \<times> node) list \<Rightarrow> jsstring list option" where
  "getOrderedNodeIds n M =
     (case rootId M of
        None \<Rightarrow> Some []
      | Some r \<Rightarrow> walk n M r [])"

section \<open>The reasoning callout assembler\<close>

text \<open>The class \<open>\w\<close>.\<close>

definition is_word :: "jschar \<Rightarrow> bool" where
  "is_word c = ((0x41 \<le> c \<and> c \<le> 0x5A) \<or> (0x61 \<le> c \<and> c \<le> 0x7A)
                \<or> (0x30 \<le> c \<and> c \<le> 0x39) \<or> c = 0x5F)"

text \<open>\<open>/^\[!\w+\]/i.test(trimmed)\<close>\<close>

definition callout_marker :: "jsstring \<Rightarrow> bool" where
  "callout_marker s =
     (startsWith s (js ''[!'')
      \<and> (let w = takeWhile is_word (drop 2 s)
         in w \<noteq> [] \<and> startsWith (drop (2 + length w) s) (js '']'')))"

text \<open>
  \<open>linkRegex.test(s)\<close> for \<open>const linkRegex = /^\[[^\]]+\]\(https?:\/\/[^)]+\)/\<close>
\<close>

definition link_line :: "jsstring \<Rightarrow> bool" where
  "link_line s =
     (startsWith s (js ''['')
      \<and> (let label = takeWhile (\<lambda>c. c \<noteq> 0x5D) (drop 1 s);
             r1 = drop (1 + length label) s;
             r2 = drop 2 r1;
             k = (if startsWith r2 (js ''http://'') then 7
                  else if startsWith r2 (js ''https://'') then 8 else 0);
             r3 = drop k r2;
             target = takeWhile (\<lambda>c. c \<noteq> 0x29) r3
         in label \<noteq> [] \<and> startsWith r1 (js '']('') \<and> k \<noteq> 0 \<and> target \<noteq> []
            \<and> length target < length r3))"

text \<open>\<open>line.replace(/^#+\s*/, "")\<close>\<close>

definition strip_heading :: "jsstring \<Rightarrow> jsstring" where
  "strip_heading line =
     (if startsWith line (js ''#'') then dropWhile is_space (dropWhile (\<lambda>c. c = 0x23) line)
      else line)"

text \<open>
  \<^verbatim>\<open>
        const candidateLines = contentLines.filter(line => {
          const trimmed = line.trim();
          if (!trimmed) return false;
          if (trimmed.startsWith("```")) return false;
          if (trimmed.startsWith("#")) return false;
          if (/^\[!\w+\]/i.test(trimmed)) return false;
          return true;
        });
  \<close>
\<close>

definition is_candidate :: "jsstring \<Rightarrow> bool" where
  "is_candidate line =
     (let trimmed = trim line
      in trimmed \<noteq> [] \<and> \<not> startsWith trimmed fence \<and> \<not> startsWith trimmed (js ''#'')
         \<and> \<not> callout_marker trimmed)"

text \<open>
  \<^verbatim>\<open>
        const hasLinks = candidateLines.some(line => linkRegex.test(line.trim()));
        const onlyLinks = hasLinks && candidateLines.every(line => {
          const trimmed = line.trim();
          return !trimmed || linkRegex.test(trimmed);
        });
  \<close>
\<close>

definition onlyLinks :: "jsstring list \<Rightarrow> bool" where
  "onlyLinks contentLines =
     (let candidateLines = filter is_candidate contentLines
      in list_ex (\<lambda>line. link_line (trim line)) candidateLines
         \<and> list_all (\<lambda>line. trim line = [] \<or> link_line (trim line)) candidateLines)"

text \<open>
  \<^verbatim>\<open>
        let calloutTitle = "Reasoning";
        let outputLines = [...contentLines];
        if (!onlyLinks) {
          for (let i = 0; i < contentLines.length; i++) {
            const line = contentLines[i].trim();
            if (!line) continue;
            if (line.startsWith("#####")) {
              calloutTitle = line.replace(/^#+\s*/, "");
              outputLines = contentLines.slice(0, i).concat(contentLines.slice(i + 1));
            }
            break;
          }
        }
  \<close>
  The loop stops at the first line that is not blank.
\<close>

definition heading_title :: "jsstring list \<Rightarrow> jsstring \<times> jsstring list" where
  "heading_title contentLines =
     (case dropWhile (\<lambda>l. trim l = []) contentLines of
        [] \<Rightarrow> (js ''Reasoning'', contentLines)
      | l # after \<Rightarrow>
          if startsWith (trim l) (js ''#####'')
          then (strip_heading (trim l), takeWhile (\<lambda>l. trim l = []) contentLines @ after)
          else (js ''Reasoning'', contentLines))"

text \<open>
  What one reasoning message pushes after the opening marker or the separator: the header
  of its nested block, then its lines.
  \<^verbatim>\<open>
        if (onlyLinks) {
          parts.push(">> [!quote]- Links\n");
        } else {
          parts.push(`>> [!example]- ${calloutTitle}\n`);
        }
        outputLines.forEach(line => {
          const trimmed = line.trim();
          parts.push(trimmed ? `>> ${trimmed}\n` : ">>\n");
        });
  \<close>
\<close>

definition nested_line :: "jsstring \<Rightarrow> jsstring" where
  "nested_line line =
     (let trimmed = trim line
      in if trimmed \<noteq> [] then js ''>> '' @ trimmed @ [NL] else js ''>>'' @ [NL])"

definition nested_block :: "jsstring \<Rightarrow> jsstring list" where
  "nested_block rawContent =
     (let contentLines = split_on NL (trim rawContent)
      in if onlyLinks contentLines
         then (js ''>> [!quote]- Links'' @ [NL]) # map nested_line contentLines
         else (case heading_title contentLines of
                 (calloutTitle, outputLines) \<Rightarrow>
                   (js ''>> [!example]- '' @ calloutTitle @ [NL]) # map nested_line outputLines))"

definition outer_header :: jsstring where
  "outer_header = js ''> [!info]- Reasoning'' @ [NL]"

definition sibling_separator :: jsstring where
  "sibling_separator = js ''> '' @ [NL]"

definition is_reasoning :: "message \<Rightarrow> bool" where
  "is_reasoning m = (reasoning_status (msg_metadata m) = Some (js ''is_reasoning''))"

text \<open>
  One turn of the loop of \<open>chatgptToMarkdown\<close> in \<open>index.js\<close>, on the state
  \<open>(inCallout, parts)\<close>:
  \<^verbatim>\<open>
    let inCallout = false;
    const parts = [];
    for (const n of orderedMessages) {
      const meta = n.message.metadata || {};
      const isReason = meta.reasoning_status === "is_reasoning";
      if (isReason) {
        let rawContent = nodeToMarkdown(n, { skipHeader: true });
        if (!inCallout) {
          parts.push("> [!info]- Reasoning\n");
          inCallout = true;
        } else {
          parts.push("> \n");
        }
        ...
        continue;
      }
      parts.push(nodeToMarkdown(n));
    }
    if (inCallout) parts.push("\n");
    const messages = parts.join("");
  \<close>
\<close>

definition assemble_step ::
  "runtime \<Rightarrow> bool \<times> jsstring list \<Rightarrow> node \<Rightarrow> js_error + (bool \<times> jsstring list)" where
  "assemble_step rt st n =
     (case st of (inCallout, parts) \<Rightarrow>
        (case node_message n of
           None \<Rightarrow> Inl (cannot_read ''metadata'')
         | Some m \<Rightarrow>
             if is_reasoning m then
               (case nodeToMarkdown rt n True of
                  Inl err \<Rightarrow> Inl err
                | Inr rawContent \<Rightarrow>
                    Inr (True,
                         parts @ [if \<not> inCallout then outer_header else sibling_separator]
                           @ nested_block rawContent))
             else
               (case nodeToMarkdown rt n False of
                  Inl err \<Rightarrow> Inl err
                | Inr md \<Rightarrow> Inr (inCallout, parts @ [md]))))"

fun assemble ::
  "runtime \<Rightarrow> bool \<times> jsstring list \<Rightarrow> node list \<Rightarrow> js_error + (bool \<times> jsstring list)" where
  "assemble rt st [] = Inr st"
| "assemble rt st (n # ns) =
     (case assemble_step rt st n of
        Inl err \<Rightarrow> Inl err
      | Inr st' \<Rightarrow> assemble rt st' ns)"

definition render_messages :: "runtime \<Rightarrow> node list \<Rightarrow> js_error + jsstring" where
  "render_messages rt orderedMessages =
     (case assemble rt (False, []) orderedMessages of
        Inl err \<Rightarrow> Inl err
      | Inr (inCallout, parts) \<Rightarrow>
          Inr (concat (parts @ (if inCallout then [[NL]] else []))))"

section \<open>The document\<close>

text \<open>
  \<^verbatim>\<open>
    const modelName =
      Object.values(conversation.mapping)
        .map((n) => n?.message?.metadata?.model_slug)
        .find((v) => v) ?? "";
  \<close>
\<close>

definition node_model_slug :: "node \<Rightarrow> jsstring option" where
  "node_model_slug n =
     (case node_message n of None \<Rightarrow> None | Some m \<Rightarrow> model_slug (msg_metadata m))"

definition modelName :: "(jsstring \<times> node) list \<Rightarrow> jsstring" where
  "modelName M =
     (case filter truthy (map (\<lambda>(k, n). node_model_slug n) M) of
        [] \<Rightarrow> []
      | v # _ \<Rightarrow> tmpl v)"

definition frontMatter :: "runtime \<Rightarrow> conversation \<Rightarrow> jsstring" where
  "frontMatter rt conv =
     join [NL]
       [js ''---'',
        js ''create_time: '' @ toISOString rt (create_time conv),
        js ''update_time: '' @ toISOString rt (update_time conv),
        js ''tags:'',
        js ''completed: false'',
        js ''validated: false'',
        js ''favorite: false'',
        js ''ai_integration: true'',
        js ''ai_integration_level: generation'',
        js ''ai_model_name: '' @ modelName (mapping conv),
        js ''aliases: '' @ wrapHtmlTagsInBackticks (title conv),
        js ''author:'',
        js ''source: https://chatgpt.com/c/'' @ conversation_id conv,
        js ''---'']"

text \<open>
  \<^verbatim>\<open>
    const orderedMessages = getOrderedNodeIds(conversation)
      .map(id => conversation.mapping[id])
      .filter(node => shouldIncludeMessage(node));
  \<close>
  The nodes that pass the filter are there, so the option is dropped. For an identifier
  that the traversal pushed for an inherited property, \<open>conversation.mapping[id]\<close> is that
  property: it has no \<open>message\<close> and fails the filter, as \<open>None\<close> does.
\<close>

definition select_messages :: "runtime \<Rightarrow> (jsstring \<times> node) list \<Rightarrow> jsstring list \<Rightarrow> node list" where
  "select_messages rt M ids =
     map the (filter (shouldIncludeMessage rt) (map (map_of M) ids))"

text \<open>
  \<^verbatim>\<open>
    const title = `# ${wrapHtmlTagsInBackticks(conversation.title)}\n`;
    ...
    const markdownContent = `${metadata}\n\n${title}\n\n${messages}`;
  \<close>
  \<open>None\<close>: the traversal exceeded the room for nested calls, and its \<open>RangeError\<close> ends
  the run.
\<close>

definition markdownContent :: "nat \<Rightarrow> runtime \<Rightarrow> conversation \<Rightarrow> (js_error + jsstring) option" where
  "markdownContent fuel rt conv =
     (case getOrderedNodeIds fuel (mapping conv) of
        None \<Rightarrow> None
      | Some ids \<Rightarrow>
          Some (case render_messages rt (select_messages rt (mapping conv) ids) of
                  Inl err \<Rightarrow> Inl err
                | Inr messages \<Rightarrow>
                    Inr (frontMatter rt conv @ [NL, NL]
                         @ js ''# '' @ wrapHtmlTagsInBackticks (title conv) @ [NL]
                         @ [NL, NL] @ messages)))"

section \<open>Writing the files\<close>

text \<open>
  The file system: for each path its content and its access and modification times. The
  clock of the process is what a write stamps a file with. \<open>fs.utimes(path, atime, mtime)\<close>
  of Node.js sets the access time to its second argument and the modification time to its
  third, for the finite, non-negative epoch seconds of an export. Failures of the file
  system are not modelled.
\<close>

record file_entry =
  content :: jsstring
  atime :: rat
  mtime :: rat

record world =
  files :: "jsstring \<rightharpoonup> file_entry"
  clock :: rat

definition writeFile :: "jsstring \<Rightarrow> jsstring \<Rightarrow> world \<Rightarrow> world" where
  "writeFile path data w =
     w\<lparr>files := (files w)(path \<mapsto>
          \<lparr>content = data,
           atime = (case files w path of None \<Rightarrow> clock w | Some f \<Rightarrow> atime f),
           mtime = clock w\<rparr>)\<rparr>"

definition utimes :: "jsstring \<Rightarrow> rat \<Rightarrow> rat \<Rightarrow> world \<Rightarrow> world" where
  "utimes path a m w =
     (case files w path of
        None \<Rightarrow> w
      | Some f \<Rightarrow> w\<lparr>files := (files w)(path \<mapsto> f\<lparr>atime := a, mtime := m\<rparr>)\<rparr>)"

text \<open>
  The body of the \<open>for (const conversation of json)\<close> loop of \<open>index.js\<close>, which ends
  \<^verbatim>\<open>
    await fs.writeFile(filePath, markdownContent, "utf8");
    await fs.utimes(filePath, conversation.create_time, conversation.update_time);
  \<close>
\<close>

definition filePath :: "runtime \<Rightarrow> jsstring \<Rightarrow> conversation \<Rightarrow> jsstring" where
  "filePath rt sourceDir conv =
     path_join rt sourceDir (fileName (title conv) (conversation_id conv))"

definition convert_conversation ::
  "nat \<Rightarrow> runtime \<Rightarrow> jsstring \<Rightarrow> world \<Rightarrow> conversation \<Rightarrow> (js_error + world) option" where
  "convert_conversation fuel rt sourceDir w conv =
     (case markdownContent fuel rt conv of
        None \<Rightarrow> None
      | Some (Inl err) \<Rightarrow> Some (Inl err)
      | Some (Inr text) \<Rightarrow>
          Some (Inr (utimes (filePath rt sourceDir conv) (create_time conv) (update_time conv)
                       (writeFile (filePath rt sourceDir conv) text w))))"

text \<open>
  \<open>chatgptToMarkdown(json, sourceDir)\<close>: the conversations in order; an exception ends the
  run, and the files written before it stay.
\<close>

fun chatgptToMarkdown ::
  "nat \<Rightarrow> runtime \<Rightarrow> conversation list \<Rightarrow> jsstring \<Rightarrow> world \<Rightarrow> (js_error option \<times> world) option" where
  "chatgptToMarkdown fuel rt [] sourceDir w = Some (None, w)"
| "chatgptToMarkdown fuel rt (conv # rest) sourceDir w =
     (case convert_conversation fuel rt sourceDir w conv of
        None \<Rightarrow> None
      | Some (Inl err) \<Rightarrow> Some (Some err, w)
      | Some (Inr w') \<Rightarrow> chatgptToMarkdown fuel rt rest sourceDir w')"

section \<open>The second implementation\<close>

text \<open>
  The file \<open>cli.js\<close> holds, after the command line interface, a second implementation of
  the conversion. Its \<open>sanitizeFileName\<close>, content switch, citation map, placeholder and
  link passes, search results, filter, traversal and front matter are those of \<open>index.js\<close>.
  Its \<open>extractCitations\<close>, the end of its \<open>nodeToMarkdown\<close>, its callout assembler and
  its call of \<open>fs.utimes\<close> differ; they are modelled here under the names of the source
  with the suffix \<open>_cli\<close>.
  \<^verbatim>\<open>
  function extractCitations(metadata = {}) {
    if (!Array.isArray(metadata.citations) || !metadata.citations.length) return "";
    return metadata.citations
      .map((c) => `[${safeTitle(c.url,c.title)}](${c.url})`)
      .join("\n") + "\n\n";
  }
  \<close>
  Here \<open>safeTitle\<close> is called whether the citation has a url or not, and splits an absent
  url when the title is blank.
\<close>

definition citation_link_cli :: "citation \<Rightarrow> js_error + jsstring" where
  "citation_link_cli c =
     (let t = trim (case cit_title c of None \<Rightarrow> [] | Some s \<Rightarrow> s)
      in if t \<noteq> [] then Inr (markdown_link t (tmpl (cit_url c)))
         else (case cit_url c of
                 None \<Rightarrow> Inl (cannot_read ''split'')
               | Some u \<Rightarrow> Inr (markdown_link (last (split_on 0x2F u)) u)))"

fun collect :: "('e + 'a) list \<Rightarrow> 'e + 'a list" where
  "collect [] = Inr []"
| "collect (x # xs) =
     (case x of
        Inl e \<Rightarrow> Inl e
      | Inr v \<Rightarrow> (case collect xs of Inl e \<Rightarrow> Inl e | Inr vs \<Rightarrow> Inr (v # vs)))"

definition extractCitations_cli :: "metadata \<Rightarrow> js_error + jsstring" where
  "extractCitations_cli meta =
     (case citations meta of
        None \<Rightarrow> Inr []
      | Some cs \<Rightarrow>
          if cs = [] then Inr []
          else (case collect (map citation_link_cli cs) of
                  Inl e \<Rightarrow> Inl e
                | Inr links \<Rightarrow> Inr (join [NL] links @ [NL, NL])))"

text \<open>
  \<^verbatim>\<open>
    const meta = node.message.metadata || {};
    if (meta.reasoning_status === "is_reasoning") {
      meta.__wrap_callout = true;
    }
    ...
    if (meta.__wrap_callout) {
      const quoted = body
        .split("\n")
        .filter((l) => l.trim())
        .map((l) => `> ${l}`)
        .join("\n");
      body = `> [!info]- Reasoning\n${quoted}`;
    }
  \<close>
  The node is changed in place; the \<open>catch\<close> serializes it as it is when the exception
  arrives. Nothing reads the key after the call but the next call on the same node, which
  the assembler makes only after deleting the key.
\<close>

definition mark_callout :: "node \<Rightarrow> node" where
  "mark_callout nd =
     (case node_message nd of
        None \<Rightarrow> nd
      | Some m \<Rightarrow>
          if is_reasoning m
          then nd\<lparr>node_message := Some (m\<lparr>msg_metadata := (msg_metadata m)\<lparr>wrap_callout := True\<rparr>\<rparr>)\<rparr>
          else nd)"

definition delete_callout_mark :: "node \<Rightarrow> node" where
  "delete_callout_mark nd =
     (case node_message nd of
        None \<Rightarrow> nd
      | Some m \<Rightarrow>
          nd\<lparr>node_message := Some (m\<lparr>msg_metadata := (msg_metadata m)\<lparr>wrap_callout := False\<rparr>\<rparr>)\<rparr>)"

definition callout_wrap :: "jsstring \<Rightarrow> jsstring" where
  "callout_wrap body =
     outer_header
       @ join [NL] (map (\<lambda>l. js ''> '' @ l) (filter (\<lambda>l. trim l \<noteq> []) (split_on NL body)))"

definition nodeToMarkdown_cli :: "runtime \<Rightarrow> node \<Rightarrow> bool \<Rightarrow> js_error + jsstring" where
  "nodeToMarkdown_cli rt nd skipHeader =
     (case node_message nd of
        None \<Rightarrow> Inr []
      | Some m \<Rightarrow>
          (case msg_content m of
             None \<Rightarrow> Inr []
           | Some cnt \<Rightarrow>
               (case render_content cnt of
                  Inl err \<Rightarrow> Inl (augment rt nd err)
                | Inr body0 \<Rightarrow>
                    (let meta = msg_metadata m;
                         wrap = (is_reasoning m \<or> wrap_callout meta);
                         body2 = wrapLinksInMarkdown
                                   (replaceCitationPlaceholders body0 (buildCitationMap meta))
                     in case extractCitations_cli meta of
                          Inl err \<Rightarrow> Inl (augment rt (mark_callout nd) err)
                        | Inr cits \<Rightarrow>
                            (let body3 = body2 @ cits @ extractSearchResults meta;
                                 body = (if wrap then callout_wrap body3 else body3)
                             in if tool_signature body then Inr []
                                else if trim body = [] then Inr []
                                else Inr (wrap_role (msg_author m) skipHeader body))))))"

text \<open>
  \<open>l.replace(/^>+\s*/, "")\<close> and \<open>first.replace(/^\[!info\]-?\s*/i, "")\<close>. Without the
  \<open>u\<close> flag, only the ASCII letters of the other case match a letter of the pattern.
\<close>

definition strip_quote_markers :: "jsstring \<Rightarrow> jsstring" where
  "strip_quote_markers l =
     (if startsWith l (js ''>'') then dropWhile is_space (dropWhile (\<lambda>c. c = 0x3E) l) else l)"

definition to_lower :: "jschar \<Rightarrow> jschar" where
  "to_lower c = (if 0x41 \<le> c \<and> c \<le> 0x5A then c + 0x20 else c)"

definition strip_info_marker :: "jsstring \<Rightarrow> jsstring" where
  "strip_info_marker s =
     (if map to_lower (take 7 s) = js ''[!info]''
      then dropWhile is_space
             (if startsWith (drop 7 s) (js ''-'') then drop 8 s else drop 7 s)
      else s)"

text \<open>
  One turn of the loop of \<open>chatgptToMarkdown\<close> in \<open>cli.js\<close>:
  \<^verbatim>\<open>
    for (const n of orderedMessages) {
      const meta = n.message.metadata || {};
      const isReason = meta.reasoning_status === "is_reasoning";
      if (isReason) {
        delete meta.__wrap_callout;
        const rawLines = nodeToMarkdown(n, { skipHeader: true })
          .split("\n")
          .map((l)=>l.replace(/^>+\s*/, ""))
          .filter((l) => l.trim());
        if (!inCallout) {
          parts.push("> [!info]- Reasoning\n");
          inCallout = true;
        } else {
          parts.push("> \n");
        }
        if (rawLines.length) {
          const [first, ...rest] = rawLines;
          const firstClean = first.replace(/^\[!info\]-?\s*/i, "").trim();
          parts.push(`>> [!example]- ${firstClean}\n`);
          rest.forEach((l) => parts.push(`>> ${l}\n`));
        }
        continue;
      }
      if (inCallout) {
        parts.push("\n");
        inCallout = false;
      }
      parts.push(nodeToMarkdown(n));
    }
    if (inCallout) parts.push("\n");
  \<close>
\<close>

definition nested_block_cli :: "jsstring \<Rightarrow> jsstring list" where
  "nested_block_cli md =
     (case filter (\<lambda>l. trim l \<noteq> []) (map strip_quote_markers (split_on NL md)) of
        [] \<Rightarrow> []
      | first # rest \<Rightarrow>
          (js ''>> [!example]- '' @ trim (strip_info_marker first) @ [NL])
            # map (\<lambda>l. js ''>> '' @ l @ [NL]) rest)"

definition assemble_step_cli ::
  "runtime \<Rightarrow> bool \<times> jsstring list \<Rightarrow> node \<Rightarrow> js_error + (bool \<times> jsstring list)" where
  "assemble_step_cli rt st n =
     (case st of (inCallout, parts) \<Rightarrow>
        (case node_message n of
           None \<Rightarrow> Inl (cannot_read ''metadata'')
         | Some m \<Rightarrow>
             if is_reasoning m then
               (case nodeToMarkdown_cli rt (delete_callout_mark n) True of
                  Inl err \<Rightarrow> Inl err
                | Inr md \<Rightarrow>
                    Inr (True,
                         parts @ [if \<not> inCallout then outer_header else sibling_separator]
                           @ nested_block_cli md))
             else
               (case nodeToMarkdown_cli rt n False of
                  Inl err \<Rightarrow> Inl err
                | Inr md \<Rightarrow> Inr (False, parts @ (if inCallout then [[NL]] else []) @ [md]))))"

fun assemble_cli ::
  "runtime \<Rightarrow> bool \<times> jsstring list \<Rightarrow> node list \<Rightarrow> js_error + (bool \<times> jsstring list)" where
  "assemble_cli rt st [] = Inr st"
| "assemble_cli rt st (n # ns) =
     (case assemble_step_cli rt st n of
        Inl err \<Rightarrow> Inl err
      | Inr st' \<Rightarrow> assemble_cli rt st' ns)"

definition render_messages_cli :: "runtime \<Rightarrow> node list \<Rightarrow> js_error + jsstring" where
  "render_messages_cli rt orderedMessages =
     (case assemble_cli rt (False, []) orderedMessages of
        Inl err \<Rightarrow> Inl err
      | Inr (inCallout, parts) \<Rightarrow>
          Inr (concat (parts @ (if inCallout then [[NL]] else []))))"

definition markdownContent_cli :: "nat \<Rightarrow> runtime \<Rightarrow> conversation \<Rightarrow> (js_error + jsstring) option" where
  "markdownContent_cli fuel rt conv =
     (case getOrderedNodeIds fuel (mapping conv) of
        None \<Rightarrow> None
      | Some ids \<Rightarrow>
          Some (case render_messages_cli rt (select_messages rt (mapping conv) ids) of
                  Inl err \<Rightarrow> Inl err
                | Inr messages \<Rightarrow>
                    Inr (frontMatter rt conv @ [NL, NL]
                         @ js ''# '' @ wrapHtmlTagsInBackticks (title conv) @ [NL]
                         @ [NL, NL] @ messages)))"

text \<open>
  The loop of \<open>cli.js\<close> ends
  \<^verbatim>\<open>
    await fs.writeFile(filePath, markdownContent, "utf8");
    await fs.utimes(filePath, conversation.update_time, conversation.create_time);
  \<close>
\<close>

definition convert_conversation_cli ::
  "nat \<Rightarrow> runtime \<Rightarrow> jsstring \<Rightarrow> world \<Rightarrow> conversation \<Rightarrow> (js_error + world) option" where
  "convert_conversation_cli fuel rt sourceDir w conv =
     (case markdownContent_cli fuel rt conv of
        None \<Rightarrow> None
      | Some (Inl err) \<Rightarrow> Some (Inl err)
      | Some (Inr text) \<Rightarrow>
          Some (Inr (utimes (filePath rt sourceDir conv) (update_time conv) (create_time conv)
                       (writeFile (filePath rt sourceDir conv) text w))))"

fun chatgptToMarkdown_cli ::
  "nat \<Rightarrow> runtime \<Rightarrow> conversation list \<Rightarrow> jsstring \<Rightarrow> world \<Rightarrow> (js_error option \<times> world) option" where
  "chatgptToMarkdown_cli fuel rt [] sourceDir w = Some (None, w)"
| "chatgptToMarkdown_cli fuel rt (conv # rest) sourceDir w =
     (case convert_conversation_cli fuel rt sourceDir w conv of
        None \<Rightarrow> None
      | Some (Inl err) \<Rightarrow> Some (Some err, w)
      | Some (Inr w') \<Rightarrow> chatgptToMarkdown_cli fuel rt rest sourceDir w')"

section \<open>Paths in a mapping\<close>

text \<open>
  For the statement about the traversal: a path from a node is a list of positions in
  the lists of children, followed from that node. \<open>follow M v p\<close> is the identifier the
  path \<open>p\<close> leads to from \<open>v\<close>, if \<open>walk\<close> pushes at its end: every node on the path is a
  key of the mapping and is not the empty identifier, and so is its end, or else the end
  is the name of an inherited property. An identifier is reachable by more than one path
  when two paths lead to it; a node that is its own descendant is reachable by infinitely
  many.
\<close>

fun follow :: "(jsstring \<times> node) list \<Rightarrow> jsstring \<Rightarrow> nat list \<Rightarrow> jsstring option" where
  "follow M v [] =
     (if v \<noteq> [] \<and> (map_of M v \<noteq> None \<or> inherited v \<noteq> None) then Some v else None)"
| "follow M v (i # p) =
     (case map_of M v of
        None \<Rightarrow> None
      | Some nd \<Rightarrow>
          if v \<noteq> [] \<and> i < length (children nd) then follow M (children nd ! i) p else None)"



section \<open>A mapping with one node replaced\<close>

text \<open>
  For the statement about excluded messages: the mapping in which the node stored for an
  identifier is replaced by another node.
\<close>

definition replace_node :: "jsstring \<Rightarrow> node \<Rightarrow> (jsstring \<times> node) list \<Rightarrow> (jsstring \<times> node) list" where
  "replace_node i nd M = map (\<lambda>(k, n). if k = i then (k, nd) else (k, n)) M"

section \<open>Texts with citation placeholders\<close>

text \<open>
  For the statement about citation placeholders, a text is described as a sequence of
  segments: a plain segment holds no sentinel, and a placeholder is a sentinel, the marker
  \<open>cite\<close>, a sentinel, an identifier that holds no sentinel and no line terminator, and
  a closing sentinel. \<open>segment_text\<close> is the text of a segment and \<open>segment_resolved\<close>
  what the description of the program says the segment becomes: a plain segment stays,
  a placeholder becomes the link stored for its identifier, or nothing.
\<close>

datatype segment = Plain jsstring | Placeholder jschar jschar jschar jsstring

fun segment_text :: "segment \<Rightarrow> jsstring" where
  "segment_text (Plain s) = s"
| "segment_text (Placeholder a b c ident) = [a] @ js ''cite'' @ [b] @ ident @ [c]"

fun segment_ok :: "segment \<Rightarrow> bool" where
  "segment_ok (Plain s) = list_all (\<lambda>x. \<not> is_sentinel x) s"
| "segment_ok (Placeholder a b c ident) =
     (is_sentinel a \<and> is_sentinel b \<and> is_sentinel c
      \<and> list_all (\<lambda>x. \<not> is_sentinel x \<and> \<not> is_line_terminator x) ident)"

fun segment_resolved :: "(jsstring \<rightharpoonup> jsstring) \<Rightarrow> segment \<Rightarrow> jsstring" where
  "segment_resolved m (Plain s) = s"
| "segment_resolved m (Placeholder a b c ident) = (case m ident of None \<Rightarrow> [] | Some link \<Rightarrow> link)"

text \<open>
  Where a run of code units that are not white space ends: at the end of the text or before
  a white space.
\<close>

definition at_token_end :: "jsstring \<Rightarrow> bool" where
  "at_token_end post = (case post of [] \<Rightarrow> True | c # _ \<Rightarrow> is_space c)"

section \<open>Words of a title\<close>

text \<open>
  For the statement about file names: the words of a text are its maximal runs of code
  units that are not separators, in order.
\<close>

function words_of :: "(jschar \<Rightarrow> bool) \<Rightarrow> jsstring \<Rightarrow> jsstring list" where
  "words_of sep [] = []"
| "words_of sep (c # s) =
     (if sep c then words_of sep s
      else takeWhile (\<lambda>x. \<not> sep x) (c # s) # words_of sep (dropWhile (\<lambda>x. \<not> sep x) s))"
  by pat_completeness auto
termination
  by (relation "measure (\<lambda>(sep, s). length s)") (auto simp: length_dropWhile_le less_Suc_eq_le)

text \<open>The right half of \<open>trim\<close>.\<close>

definition rtrim :: "jsstring \<Rightarrow> jsstring" where
  "rtrim x = rev (dropWhile is_space (rev x))"

section \<open>Example inputs\<close>

text \<open>The text \<open>{"search_query": "x"}\<close>.\<close>

definition search_query_text :: jsstring where
  "search_query_text = js ''{'' @ quoted ''search_query'' @ js '': '' @ quoted ''x'' @ js ''}''"

text \<open>
  A runtime for the examples: \<open>JSON.parse\<close> knows two texts, the object with the single
  key \<open>open\<close> and the object with the single key \<open>search_query\<close>, and fails on every
  other.
\<close>

definition example_runtime :: runtime where
  "example_runtime =
     \<lparr>JSON_stringify = (\<lambda>nd. js ''{...}''),
      JSON_parse = (\<lambda>s. if s = js ''{'' @ quoted ''open'' @ js '': 1}''
                         then Some (JObject [js ''open''])
                       else if s = search_query_text
                         then Some (JObject [js ''search_query''])
                       else None),
      toISOString = (\<lambda>t. js ''2024-01-01T00:00:00.000Z''),
      path_join = (\<lambda>dir name. dir @ js ''/'' @ name)\<rparr>"

definition no_metadata :: metadata where
  "no_metadata =
     \<lparr>is_visually_hidden_from_conversation = False, reasoning_status = None,
      model_slug = None, citations = None, search_result_groups = None,
         wrap_callout = False\<rparr>"

definition reasoning_metadata :: metadata where
  "reasoning_metadata = no_metadata\<lparr>reasoning_status := Some (js ''is_reasoning'')\<rparr>"

definition example_node :: "string \<Rightarrow> content \<Rightarrow> metadata \<Rightarrow> string list \<Rightarrow> node" where
  "example_node r c meta cs =
     \<lparr>children = map js cs,
      node_message = Some \<lparr>msg_author = \<lparr>role = js r, author_name = None\<rparr>,
                           msg_content = Some c, msg_metadata = meta\<rparr>\<rparr>"

definition structural_node :: "string list \<Rightarrow> node" where
  "structural_node cs = \<lparr>children = map js cs, node_message = None\<rparr>"

definition example_conversation :: "(jsstring \<times> node) list \<Rightarrow> conversation" where
  "example_conversation M =
     \<lparr>title = js ''Chat'', conversation_id = js ''conv-1'', create_time = 1000,
      update_time = 2000, mapping = M\<rparr>"

definition empty_world :: world where
  "empty_world = \<lparr>files = Map.empty, clock = 5000\<rparr>"

text \<open>A conversation whose assistant message is a code content without a language.\<close>

definition failing_mapping :: "(jsstring \<times> node) list" where
  "failing_mapping =
     [(js ''client-created-root'', structural_node [''u'']),
      (js ''u'', example_node ''user'' (Text (Some [js ''hello''])) no_metadata [''a'']),
      (js ''a'', example_node ''assistant'' (Code None (Some (js ''x = 1''))) no_metadata [])]"

text \<open>
  A conversation with two internal tool commands of the assistant, a search query as code
  and an \<open>open\<close> command as text, between a user message and an answer.
\<close>

definition tool_mapping :: "(jsstring \<times> node) list" where
  "tool_mapping =
     [(js ''client-created-root'', structural_node [''u'']),
      (js ''u'', example_node ''user'' (Text (Some [js ''hello''])) no_metadata [''s'']),
      (js ''s'', example_node ''assistant'' (Code (Some (js ''unknown'')) (Some search_query_text))
                   no_metadata [''o'']),
      (js ''o'', example_node ''assistant''
                   (Text (Some [js '' {'' @ quoted ''open'' @ js '': 1} ''])) no_metadata [''a'']),
      (js ''a'', example_node ''assistant'' (Text (Some [js ''hi''])) no_metadata [])]"

text \<open>
  A conversation whose only message with a \<open>model_slug\<close> is an internal tool command of the
  assistant, the search query \<open>{"search_query": "x"}\<close>.
\<close>

definition slug_mapping :: "(jsstring \<times> node) list" where
  "slug_mapping =
     [(js ''client-created-root'', structural_node [''u'']),
      (js ''u'', example_node ''user'' (Text (Some [js ''hello''])) no_metadata [''s'']),
      (js ''s'', example_node ''assistant'' (Code (Some (js ''unknown'')) (Some search_query_text))
                   (no_metadata\<lparr>model_slug := Some (js ''gpt-4o'')\<rparr>) [''a'']),
      (js ''a'', example_node ''assistant'' (Text (Some [js ''hi''])) no_metadata [])]"

text \<open>The document of that conversation, for a given model name.\<close>

definition slug_document :: "jsstring \<Rightarrow> jsstring" where
  "slug_document model =
     join [NL]
       [js ''---'',
        js ''create_time: 2024-01-01T00:00:00.000Z'',
        js ''update_time: 2024-01-01T00:00:00.000Z'',
        js ''tags:'',
        js ''completed: false'',
        js ''validated: false'',
        js ''favorite: false'',
        js ''ai_integration: true'',
        js ''ai_integration_level: generation'',
        js ''ai_model_name: '' @ model,
        js ''aliases: Chat'',
        js ''author:'',
        js ''source: https://chatgpt.com/c/conv-1'',
        js ''---'',
        [],
        js ''# Chat'',
        [],
        [],
        js ''## user'',
        [],
        js ''    hello'',
        [],
        [],
        js ''## assistant'',
        [],
        js ''hi'',
        [],
        []]"

text \<open>
  A conversation with a run of three reasoning messages and then an answer: the first
  reasoning message starts with a level-5 heading, the third is a bare link.
\<close>

definition reasoning_mapping :: "(jsstring \<times> node) list" where
  "reasoning_mapping =
     [(js ''client-created-root'', structural_node [''r1'']),
      (js ''r1'', example_node ''assistant''
                    (Text (Some [js ''##### Plan'', js ''step one''])) reasoning_metadata [''r2'']),
      (js ''r2'', example_node ''assistant'' (Text (Some [js ''step two''])) reasoning_metadata
                    [''r3'']),
      (js ''r3'', example_node ''assistant'' (Text (Some [js ''https://d.org/x'']))
                    reasoning_metadata [''a'']),
      (js ''a'', example_node ''assistant'' (Text (Some [js ''answer''])) no_metadata [])]"

definition example_path :: jsstring where
  "example_path = js ''out/Chat.md''"



text \<open>A mapping whose root declares the name of an inherited property twice.\<close>

definition inherited_child_mapping :: "(jsstring \<times> node) list" where
  "inherited_child_mapping =
     [(js ''client-created-root'', structural_node [''a'', ''constructor'', ''constructor'']),
      (js ''a'', structural_node [])]"

text \<open>A mapping in which the root is a child of its own child.\<close>

definition cyclic_mapping :: "(jsstring \<times> node) list" where
  "cyclic_mapping =
     [(js ''client-created-root'', structural_node [''a'']),
      (js ''a'', structural_node [''client-created-root''])]"

text \<open>
  Metadata that carries citations and nothing else, and a citation with a given \<open>ref_id\<close>,
  the url \<open>https://a.org/x\<close> and the title \<open>T\<close>.
\<close>

definition citing :: "citation list \<Rightarrow> metadata" where
  "citing cs = no_metadata\<lparr>citations := Some cs\<rparr>"

definition proto_citation :: "jsstring \<Rightarrow> citation" where
  "proto_citation k =
     \<lparr>ref_id = Some k, source_id = None, cit_id = None,
      cit_url = Some (js ''https://a.org/x''), cit_title = Some (js ''T''),
      cit_name = None, cit_detail = None\<rparr>"

section \<open>Properties of file names\<close>

lemmas string_eval = js_def NL_def SP_def DQUOTE_def BACKTICK_def is_space_def
  is_line_terminator_def trim_def startsWith_def

lemma is_space_SP: "is_space SP"
  by (simp add: is_space_def SP_def)

lemma invalid_not_SP: "\<not> invalid_char SP"
  by (simp add: invalid_char_def SP_def)

lemma collapse_ws_chars:
  "c \<in> set (collapse_ws s) \<Longrightarrow> (c \<in> set s \<and> \<not> is_space c) \<or> c = SP"
proof (induction s rule: collapse_ws.induct)
  case 1
  then show ?case by simp
next
  case (2 d s)
  then show ?case by (auto split: if_splits dest: set_dropWhileD)
qed

lemma collapse_ws_hd_SP:
  "collapse_ws s \<noteq> [] \<Longrightarrow> hd (collapse_ws s) = SP \<Longrightarrow> s \<noteq> [] \<and> is_space (hd s)"
  by (cases s) (auto simp: is_space_SP split: if_splits)

lemma collapse_ws_adjacent:
  "Suc i < length (collapse_ws s) \<Longrightarrow>
     \<not> (collapse_ws s ! i = SP \<and> collapse_ws s ! Suc i = SP)"
proof (induction s arbitrary: i rule: collapse_ws.induct)
  case 1
  then show ?case by simp
next
  case (2 c s)
  show ?case
  proof (cases "is_space c")
    case True
    let ?r = "dropWhile is_space s"
    have eq: "collapse_ws (c # s) = SP # collapse_ws ?r" using True by simp
    show ?thesis
    proof (cases i)
      case 0
      have ne: "collapse_ws ?r \<noteq> []" using "2.prems" eq 0 by auto
      have "hd (collapse_ws ?r) \<noteq> SP"
      proof
        assume "hd (collapse_ws ?r) = SP"
        then have "?r \<noteq> [] \<and> is_space (hd ?r)" using collapse_ws_hd_SP ne by blast
        then show False using hd_dropWhile by blast
      qed
      then show ?thesis using eq 0 ne by (simp add: hd_conv_nth)
    next
      case (Suc j)
      then have "Suc j < length (collapse_ws ?r)" using "2.prems" eq by simp
      then show ?thesis using "2.IH"(1) True eq Suc by simp
    qed
  next
    case False
    have eq: "collapse_ws (c # s) = c # collapse_ws s" using False by simp
    have cne: "c \<noteq> SP" using False is_space_SP by auto
    show ?thesis
    proof (cases i)
      case 0
      then show ?thesis using eq cne by simp
    next
      case (Suc j)
      then have "Suc j < length (collapse_ws s)" using "2.prems" eq by simp
      then show ?thesis using "2.IH"(2) False eq Suc by simp
    qed
  qed
qed

lemma collapse_ws_filter:
  "filter (\<lambda>c. \<not> is_space c) (collapse_ws s) = filter (\<lambda>c. \<not> is_space c) s"
proof (induction s rule: collapse_ws.induct)
  case 1
  then show ?case by simp
next
  case (2 c s)
  have "filter (\<lambda>c. \<not> is_space c) (dropWhile is_space s) = filter (\<lambda>c. \<not> is_space c) s"
    by (induction s) auto
  then show ?case using 2 by (auto simp: is_space_SP)
qed

lemma trim_decomp: "\<exists>pre post. s = pre @ trim s @ post \<and> (\<forall>c \<in> set pre. is_space c) \<and> (\<forall>c \<in> set post. is_space c)"
proof -
  let ?u = "dropWhile is_space s"
  have 1: "s = takeWhile is_space s @ ?u" by simp
  have "rev ?u = takeWhile is_space (rev ?u) @ dropWhile is_space (rev ?u)" by simp
  then have "?u = rev (dropWhile is_space (rev ?u)) @ rev (takeWhile is_space (rev ?u))"
    by (metis rev_append rev_rev_ident)
  then have 2: "?u = trim s @ rev (takeWhile is_space (rev ?u))" by (simp add: trim_def)
  have "s = takeWhile is_space s @ trim s @ rev (takeWhile is_space (rev ?u))"
    using 1 2 by metis
  moreover have "\<forall>c \<in> set (takeWhile is_space s). is_space c" by (auto dest: set_takeWhileD)
  moreover have "\<forall>c \<in> set (rev (takeWhile is_space (rev ?u))). is_space c" by (auto dest: set_takeWhileD)
  ultimately show ?thesis by blast
qed

lemma trim_set: "set (trim s) \<subseteq> set s"
  using trim_decomp[of s] by (metis Un_iff set_append subsetI)

lemma trim_filter: "filter (\<lambda>c. \<not> is_space c) (trim s) = filter (\<lambda>c. \<not> is_space c) s"
proof -
  obtain pre post where d: "s = pre @ trim s @ post" "\<forall>c \<in> set pre. is_space c" "\<forall>c \<in> set post. is_space c"
    using trim_decomp by blast
  have "filter (\<lambda>c. \<not> is_space c) pre = []" "filter (\<lambda>c. \<not> is_space c) post = []"
    using d(2,3) by (auto simp: filter_empty_conv)
  then have "filter (\<lambda>c. \<not> is_space c) (pre @ trim s @ post) = filter (\<lambda>c. \<not> is_space c) (trim s)"
    by simp
  then show ?thesis using d(1) by simp
qed

lemma trim_last: "trim s \<noteq> [] \<Longrightarrow> \<not> is_space (last (trim s))"
  unfolding trim_def by (simp add: last_rev hd_dropWhile)

lemma trim_hd: "trim s \<noteq> [] \<Longrightarrow> \<not> is_space (hd (trim s))"
proof -
  assume ne: "trim s \<noteq> []"
  let ?u = "dropWhile is_space s"
  have "rev ?u = takeWhile is_space (rev ?u) @ dropWhile is_space (rev ?u)" by simp
  then have "?u = rev (dropWhile is_space (rev ?u)) @ rev (takeWhile is_space (rev ?u))"
    by (metis rev_append rev_rev_ident)
  then have u: "?u = trim s @ rev (takeWhile is_space (rev ?u))" by (simp add: trim_def)
  then have "hd ?u = hd (trim s)" using ne by (metis hd_append2)
  moreover have "?u \<noteq> []" using u ne by (metis append_is_Nil_conv)
  ultimately show ?thesis using hd_dropWhile by metis
qed

lemma trim_adjacent:
  assumes "\<And>i. Suc i < length s \<Longrightarrow> \<not> (s ! i = SP \<and> s ! Suc i = SP)"
      and "Suc i < length (trim s)"
  shows "\<not> (trim s ! i = SP \<and> trim s ! Suc i = SP)"
proof -
  obtain pre post where d: "s = pre @ trim s @ post" using trim_decomp by blast
  let ?k = "length pre"
  have len: "Suc (?k + i) < length s" using assms(2) d by (metis add_Suc_right length_append nat_add_left_cancel_less trans_less_add1)
  have a: "s ! (?k + i) = trim s ! i" using d assms(2) by (metis Suc_lessD nth_append nth_append_length_plus)
  have b: "s ! Suc (?k + i) = trim s ! Suc i" using d assms(2) by (metis add_Suc_right nth_append nth_append_length_plus)
  show ?thesis using assms(1)[OF len] a b by simp
qed


lemma replace_invalid_chars:
  "c \<in> set (replace_invalid s) \<Longrightarrow> \<not> invalid_char c"
  by (auto simp: replace_invalid_def invalid_not_SP)

lemma replace_invalid_filter:
  "filter (\<lambda>c. \<not> is_space c) (replace_invalid s)
     = filter (\<lambda>c. \<not> is_space c \<and> \<not> invalid_char c) s"
  by (induction s) (auto simp: replace_invalid_def is_space_SP)

lemma sanitize_chars:
  assumes "c \<in> set (sanitizeFileName t)"
  shows "\<not> invalid_char c \<and> (is_space c \<longrightarrow> c = SP)"
proof -
  have "c \<in> set (collapse_ws (replace_invalid t))"
    using assms trim_set unfolding sanitizeFileName_def by blast
  then have "(c \<in> set (replace_invalid t) \<and> \<not> is_space c) \<or> c = SP"
    by (rule collapse_ws_chars)
  then show ?thesis using replace_invalid_chars invalid_not_SP by blast
qed

lemma sanitize_adjacent:
  "Suc i < length (sanitizeFileName t) \<Longrightarrow>
     \<not> (sanitizeFileName t ! i = SP \<and> sanitizeFileName t ! Suc i = SP)"
  unfolding sanitizeFileName_def
  by (rule trim_adjacent) (auto dest: collapse_ws_adjacent)

lemma sanitize_filter:
  "filter (\<lambda>c. \<not> is_space c) (sanitizeFileName t)
     = filter (\<lambda>c. \<not> is_space c \<and> \<not> invalid_char c) t"
  by (simp add: sanitizeFileName_def trim_filter collapse_ws_filter replace_invalid_filter)

lemma sanitize_empty_iff:
  "sanitizeFileName t = [] \<longleftrightarrow> (\<forall>c \<in> set t. invalid_char c \<or> is_space c)"
proof
  assume "sanitizeFileName t = []"
  then have "filter (\<lambda>c. \<not> is_space c \<and> \<not> invalid_char c) t = []"
    using sanitize_filter[of t] by simp
  then show "\<forall>c \<in> set t. invalid_char c \<or> is_space c"
    by (auto simp: filter_empty_conv)
next
  assume a: "\<forall>c \<in> set t. invalid_char c \<or> is_space c"
  then have "filter (\<lambda>c. \<not> is_space c \<and> \<not> invalid_char c) t = []"
    by (auto simp: filter_empty_conv)
  then have all: "\<forall>c \<in> set (sanitizeFileName t). is_space c"
    using sanitize_filter[of t] by (auto simp: filter_empty_conv)
  show "sanitizeFileName t = []"
  proof (rule ccontr)
    assume ne: "sanitizeFileName t \<noteq> []"
    then have "\<not> is_space (hd (sanitizeFileName t))"
      unfolding sanitizeFileName_def by (rule trim_hd)
    then show False using all ne hd_in_set by blast
  qed
qed

lemma words_of_nonempty: "w \<in> set (words_of sep s) \<Longrightarrow> w \<noteq> []"
  by (induction sep s rule: words_of.induct) (auto split: if_splits)

lemma join_Cons_nonempty: "x \<noteq> [] \<Longrightarrow> join sep (x # xs) \<noteq> []"
  by (cases xs) auto

lemma join_words_empty: "join [SP] (words_of sep s) = [] \<Longrightarrow> words_of sep s = []"
  using words_of_nonempty join_Cons_nonempty
  by (metis list.exhaust list.set_intros(1))

lemma join_Cons2: "xs \<noteq> [] \<Longrightarrow> join sep (x # xs) = x @ sep @ join sep xs"
  by (cases xs) auto

lemma collapse_ws_prefix:
  "\<forall>c \<in> set w. \<not> is_space c \<Longrightarrow> collapse_ws (w @ r) = w @ collapse_ws r"
  by (induction w) auto

lemma collapse_ws_dropWhile:
  "dropWhile is_space (collapse_ws s) = collapse_ws (dropWhile is_space s)"
proof (cases s)
  case Nil
  then show ?thesis by simp
next
  case (Cons c t)
  show ?thesis
  proof (cases "is_space c")
    case True
    let ?u = "dropWhile is_space t"
    have "dropWhile is_space (collapse_ws ?u) = collapse_ws ?u"
    proof (cases ?u)
      case Nil
      then show ?thesis by (simp only: collapse_ws.simps dropWhile.simps)
    next
      case (Cons d v)
      then have "\<not> is_space d" by (metis hd_dropWhile list.distinct(1) list.sel(1))
      then show ?thesis using Cons by simp
    qed
    then show ?thesis using True Cons by (simp add: is_space_SP)
  next
    case False
    then show ?thesis using Cons by simp
  qed
qed

lemma trim_rtrim: "trim s = rtrim (dropWhile is_space s)"
  by (simp add: trim_def rtrim_def)

lemma rtrim_append: "rtrim y \<noteq> [] \<Longrightarrow> rtrim (x @ y) = x @ rtrim y"
proof -
  assume "rtrim y \<noteq> []"
  then have "dropWhile is_space (rev y) \<noteq> []" by (simp add: rtrim_def)
  then obtain c where "c \<in> set (rev y)" "\<not> is_space c"
    by (metis dropWhile_eq_Nil_conv)
  then have "dropWhile is_space (rev y @ rev x) = dropWhile is_space (rev y) @ rev x"
    by (rule dropWhile_append1)
  then show ?thesis by (simp add: rtrim_def)
qed

lemma rtrim_spaces: "\<forall>c \<in> set y. is_space c \<Longrightarrow> rtrim (x @ y) = rtrim x"
proof -
  assume "\<forall>c \<in> set y. is_space c"
  then have "\<forall>c \<in> set (rev y). is_space c" by simp
  then have "dropWhile is_space (rev y @ rev x) = dropWhile is_space (rev x)"
    by (intro dropWhile_append2) auto
  then show ?thesis by (simp add: rtrim_def)
qed

lemma rtrim_empty: "rtrim y = [] \<Longrightarrow> \<forall>c \<in> set y. is_space c"
  by (simp add: rtrim_def dropWhile_eq_Nil_conv)

lemma rtrim_word: "w \<noteq> [] \<Longrightarrow> \<forall>c \<in> set w. \<not> is_space c \<Longrightarrow> rtrim w = w"
proof -
  assume w: "w \<noteq> []" "\<forall>c \<in> set w. \<not> is_space c"
  then have "rev w \<noteq> []" "\<not> is_space (hd (rev w))"
    by (simp_all add: hd_rev)
  then have "dropWhile is_space (rev w) = rev w" by (cases "rev w") auto
  then show ?thesis by (simp add: rtrim_def)
qed

lemma trim_collapse_words:
  "rtrim (collapse_ws (dropWhile is_space u)) = join [SP] (words_of is_space u)"
proof (induction is_space u rule: words_of.induct)
  case 1
  then show ?case by (simp add: rtrim_def)
next
  case (2 c s)
  show ?case
  proof (cases "is_space c")
    case True
    then show ?thesis using 2(1) by simp
  next
    case False
    let ?w = "takeWhile (\<lambda>x. \<not> is_space x) (c # s)"
    let ?rest = "dropWhile (\<lambda>x. \<not> is_space x) s"
    have w_ne: "?w \<noteq> []" using False by simp
    have w_ns: "\<forall>x \<in> set ?w. \<not> is_space x" by (auto dest: set_takeWhileD)
    have split: "c # s = ?w @ ?rest" using False by simp
    have ih: "rtrim (collapse_ws (dropWhile is_space ?rest)) = join [SP] (words_of is_space ?rest)"
      using 2(2) False by simp
    have words: "words_of is_space (c # s) = ?w # words_of is_space ?rest"
      using False by simp
    have col: "collapse_ws (c # s) = ?w @ collapse_ws ?rest"
      using collapse_ws_prefix[OF w_ns, of ?rest] by (simp only: split[symmetric])
    have goal: "rtrim (?w @ collapse_ws ?rest) = join [SP] (?w # words_of is_space ?rest)"
    proof (cases ?rest)
      case Nil
      then have "words_of is_space ?rest = []" by (simp only: words_of.simps)
      moreover have "collapse_ws ?rest = []" using Nil by (simp only: collapse_ws.simps)
      ultimately show ?thesis using rtrim_word[OF w_ne w_ns] by (simp only: append_Nil2 join.simps)
    next
      case (Cons d r)
      then have d: "is_space d" by (metis hd_dropWhile list.distinct(1) list.sel(1))
      let ?y = "collapse_ws (dropWhile is_space r)"
      have cr: "collapse_ws ?rest = SP # ?y" using Cons d by simp
      have lr: "dropWhile is_space ?rest = dropWhile is_space r" using Cons d by simp
      have ih': "rtrim ?y = join [SP] (words_of is_space ?rest)" using ih lr by simp
      show ?thesis
      proof (cases "rtrim ?y = []")
        case True
        then have "\<forall>x \<in> set (SP # ?y). is_space x" using rtrim_empty is_space_SP by auto
        then have "rtrim (?w @ SP # ?y) = rtrim ?w" by (rule rtrim_spaces)
        moreover have "words_of is_space ?rest = []" using True ih' join_words_empty by metis
        ultimately show ?thesis using cr rtrim_word[OF w_ne w_ns] by simp
      next
        case False
        then have "rtrim ((?w @ [SP]) @ ?y) = (?w @ [SP]) @ rtrim ?y" by (rule rtrim_append)
        moreover have "words_of is_space ?rest \<noteq> []" using False ih' by auto
        ultimately show ?thesis using cr ih' by (simp add: join_Cons2)
      qed
    qed
    have "dropWhile is_space (c # s) = c # s" using False by simp
    then show ?thesis using goal col words by simp
  qed
qed

lemma words_of_replace_invalid:
  "words_of is_space (replace_invalid t) = words_of (\<lambda>c. invalid_char c \<or> is_space c) t"
proof (induction "\<lambda>c. invalid_char c \<or> is_space c" t rule: words_of.induct)
  case 1
  then show ?case by (simp add: replace_invalid_def)
next
  case (2 c s)
  let ?f = "\<lambda>c. if invalid_char c then SP else c"
  have comp: "(\<lambda>x. \<not> is_space x) \<circ> ?f = (\<lambda>x. \<not> (invalid_char x \<or> is_space x))"
    by (auto simp: fun_eq_iff is_space_SP)
  show ?case
  proof (cases "invalid_char c \<or> is_space c")
    case True
    then have "is_space (?f c)" by (auto simp: is_space_SP)
    then show ?thesis using True 2(1) by (simp add: replace_invalid_def)
  next
    case False
    have tw: "takeWhile (\<lambda>x. \<not> is_space x) (map ?f s)
                = takeWhile (\<lambda>x. \<not> (invalid_char x \<or> is_space x)) s"
    proof -
      have "takeWhile (\<lambda>x. \<not> is_space x) (map ?f s)
              = map ?f (takeWhile (\<lambda>x. \<not> (invalid_char x \<or> is_space x)) s)"
        by (simp add: takeWhile_map comp)
      moreover have "map ?f (takeWhile (\<lambda>x. \<not> (invalid_char x \<or> is_space x)) s)
              = takeWhile (\<lambda>x. \<not> (invalid_char x \<or> is_space x)) s"
        by (rule map_idI) (auto dest: set_takeWhileD)
      ultimately show ?thesis by simp
    qed
    have dw: "dropWhile (\<lambda>x. \<not> is_space x) (map ?f s)
                = map ?f (dropWhile (\<lambda>x. \<not> (invalid_char x \<or> is_space x)) s)"
      by (simp add: dropWhile_map comp)
    show ?thesis using False 2(2) tw dw by (simp add: replace_invalid_def)
  qed
qed

lemma sanitizeFileName_words:
  "sanitizeFileName t = join [SP] (words_of (\<lambda>c. invalid_char c \<or> is_space c) t)"
proof -
  have "sanitizeFileName t = rtrim (dropWhile is_space (collapse_ws (replace_invalid t)))"
    by (simp add: sanitizeFileName_def trim_rtrim)
  also have "\<dots> = rtrim (collapse_ws (dropWhile is_space (replace_invalid t)))"
    by (simp add: collapse_ws_dropWhile)
  also have "\<dots> = join [SP] (words_of is_space (replace_invalid t))"
    by (rule trim_collapse_words)
  finally show ?thesis by (simp add: words_of_replace_invalid)
qed

text \<open>
  Claim C7. The sanitized title is the words of the title, the maximal runs of characters
  that are neither invalid path characters (newline included) nor white space, joined by
  single spaces. So it holds no invalid path character and no newline; the only
  white space left in it is the plain space, never twice in a row and never at either end;
  every other character of the title is kept, in order. The title sanitizes to the empty
  string exactly when all its characters are invalid or white space, and then the file
  name is the conversation identifier followed by \<open>.md\<close>; otherwise it is the
  sanitized title followed by \<open>.md\<close>.
\<close>

theorem sanitizeFileName_spec:
  "sanitizeFileName ttl = join [SP] (words_of (\<lambda>c. invalid_char c \<or> is_space c) ttl)
   \<and> (\<forall>c \<in> set (sanitizeFileName ttl). \<not> invalid_char c \<and> (is_space c \<longrightarrow> c = SP))
   \<and> (\<forall>i. Suc i < length (sanitizeFileName ttl) \<longrightarrow>
          \<not> (sanitizeFileName ttl ! i = SP \<and> sanitizeFileName ttl ! Suc i = SP))
   \<and> (sanitizeFileName ttl \<noteq> [] \<longrightarrow>
          \<not> is_space (hd (sanitizeFileName ttl)) \<and> \<not> is_space (last (sanitizeFileName ttl)))
   \<and> filter (\<lambda>c. \<not> is_space c) (sanitizeFileName ttl)
        = filter (\<lambda>c. \<not> is_space c \<and> \<not> invalid_char c) ttl
   \<and> (sanitizeFileName ttl = [] \<longleftrightarrow> (\<forall>c \<in> set ttl. invalid_char c \<or> is_space c))
   \<and> (sanitizeFileName ttl = [] \<longrightarrow>
          fileName ttl cid = cid @ js ''.md'')
   \<and> (sanitizeFileName ttl \<noteq> [] \<longrightarrow>
          fileName ttl cid = sanitizeFileName ttl @ js ''.md'')"
proof -
  have 1: "\<forall>c \<in> set (sanitizeFileName ttl). \<not> invalid_char c \<and> (is_space c \<longrightarrow> c = SP)"
    using sanitize_chars by blast
  have 2: "\<forall>i. Suc i < length (sanitizeFileName ttl) \<longrightarrow>
          \<not> (sanitizeFileName ttl ! i = SP \<and> sanitizeFileName ttl ! Suc i = SP)"
    using sanitize_adjacent by blast
  have 3: "sanitizeFileName ttl \<noteq> [] \<longrightarrow>
          \<not> is_space (hd (sanitizeFileName ttl)) \<and> \<not> is_space (last (sanitizeFileName ttl))"
    unfolding sanitizeFileName_def using trim_hd trim_last by blast
  have 4: "sanitizeFileName ttl = [] \<longrightarrow>
          fileName ttl cid = cid @ js ''.md''"
    by (simp add: fileName_def)
  have 5: "sanitizeFileName ttl \<noteq> [] \<longrightarrow>
          fileName ttl cid = sanitizeFileName ttl @ js ''.md''"
    by (simp add: fileName_def)
  show ?thesis
    using 1 2 3 4 5 sanitize_filter sanitize_empty_iff sanitizeFileName_words by blast
qed

theorem sanitizeFileName_spec_witness:
  "sanitizeFileName (js ''a: b?'' @ [NL, NL] @ js ''c '') = js ''a b c''
   \<and> fileName (js ''a: b?'' @ [NL, NL] @ js ''c '') (js ''conv-1'') = js ''a b c.md''
   \<and> sanitizeFileName (js '':?*<>'') = []
   \<and> fileName (js '':?*<>'') (js ''conv-1'') = js ''conv-1.md''"
proof -
  let ?x = "js ''a: b?'' @ [NL, NL] @ js ''c ''"
  let ?y = "js '':?*<>''"
  have a: "sanitizeFileName ?x = js ''a b c''"
    by (simp add: sanitizeFileName_def replace_invalid_def invalid_char_def string_eval)
  have b: "\<forall>c \<in> set ?y. invalid_char c \<or> is_space c"
    by (simp add: invalid_char_def string_eval)
  have c: "js ''a b c'' \<noteq> []" by (simp add: js_def)
  have x1: "sanitizeFileName ?x \<noteq> [] \<longrightarrow>
              fileName ?x (js ''conv-1'') = sanitizeFileName ?x @ js ''.md''"
    using sanitizeFileName_spec[of ?x "js ''conv-1''"] by blast
  have y1: "sanitizeFileName ?y = [] \<longleftrightarrow> (\<forall>c \<in> set ?y. invalid_char c \<or> is_space c)"
    using sanitizeFileName_spec[of ?y "js ''conv-1''"] by blast
  have y2: "sanitizeFileName ?y = [] \<longrightarrow> fileName ?y (js ''conv-1'') = js ''conv-1'' @ js ''.md''"
    using sanitizeFileName_spec[of ?y "js ''conv-1''"] by blast
  have e: "sanitizeFileName ?y = []" using y1 b by blast
  have f1: "fileName ?x (js ''conv-1'') = js ''a b c'' @ js ''.md''" using x1 a c by metis
  have f2: "fileName ?y (js ''conv-1'') = js ''conv-1'' @ js ''.md''" using y2 e by blast
  have j1: "js ''a b c'' @ js ''.md'' = js ''a b c.md''" by (simp add: js_def)
  have j2: "js ''conv-1'' @ js ''.md'' = js ''conv-1.md''" by (simp add: js_def)
  show ?thesis using a e f1 f2 j1 j2 by metis
qed

section \<open>The language tag of a code block\<close>

lemma replace_first_absent:
  "(\<And>pre post. l \<noteq> pre @ pat @ post) \<Longrightarrow> pat \<noteq> [] \<Longrightarrow> replace_first pat rep l = l"
proof (induction l)
  case Nil
  then show ?case by simp
next
  case (Cons c s)
  have ns: "\<not> startsWith (c # s) pat"
  proof
    assume "startsWith (c # s) pat"
    then have "c # s = [] @ pat @ drop (length pat) (c # s)"
      unfolding startsWith_def by (metis append_Nil append_take_drop_id)
    then show False using Cons.prems(1) by blast
  qed
  have "\<And>pre post. s \<noteq> pre @ pat @ post"
  proof
    fix pre post
    assume "s = pre @ pat @ post"
    then have "c # s = (c # pre) @ pat @ post" by simp
    then show False using Cons.prems(1) by blast
  qed
  then have "replace_first pat rep s = s" using Cons.IH Cons.prems(2) by blast
  then show ?case using ns by simp
qed

lemma replace_first_whole: "pat \<noteq> [] \<Longrightarrow> replace_first pat rep pat = rep"
  by (cases pat) (auto simp: startsWith_def)

text \<open>
  What the substitution leaves alone: the tag of a code content whose declared language is
  \<open>unknown\<close> is empty, and a declared language that does not contain \<open>unknown\<close> is the
  tag, unchanged.
\<close>

lemma code_language_plain:
  "render_content (Code (Some (js ''unknown'')) body)
     = Inr (fence @ [NL] @ tmpl body @ [NL] @ fence)
   \<and> ((\<forall>pre post. l \<noteq> pre @ js ''unknown'' @ post) \<longrightarrow>
        render_content (Code (Some l) body) = Inr (fence @ l @ [NL] @ tmpl body @ [NL] @ fence))"
proof -
  have ne: "js ''unknown'' \<noteq> []" by (simp add: js_def)
  have 1: "replace_first (js ''unknown'') [] (js ''unknown'') = []"
    using replace_first_whole[OF ne] by simp
  have 2: "(\<forall>pre post. l \<noteq> pre @ js ''unknown'' @ post) \<longrightarrow> replace_first (js ''unknown'') [] l = l"
    using replace_first_absent[of l "js ''unknown''" "[]"] ne by blast
  show ?thesis using 1 2 by simp
qed

lemma code_language_python:
  "render_content (Code (Some (js ''python'')) (Some (js ''x = 1'')))
     = Inr (fence @ js ''python'' @ [NL] @ js ''x = 1'' @ [NL] @ fence)"
proof -
  have h: "\<forall>pre post. js ''python'' \<noteq> pre @ js ''unknown'' @ post"
  proof (intro allI notI)
    fix pre post
    assume "js ''python'' = pre @ js ''unknown'' @ post"
    then have "length (js ''python'') = length (pre @ js ''unknown'' @ post)" by simp
    then show False by (simp add: js_def)
  qed
  show ?thesis
    using code_language_plain[of "Some (js ''x = 1'')" "js ''python''"] h
    by (simp add: tmpl_def)
qed

text \<open>
  Claim C4. The claim has the language tag empty when the declared language is \<open>unknown\<close>
  and equal to the declared language otherwise. \<open>nodeToMarkdown\<close> does not compare the
  declared language with \<open>unknown\<close>: it deletes the first occurrence of \<open>unknown\<close> from
  it. The declared language \<open>unknown-lang\<close> is not \<open>unknown\<close>, and the tag of its code
  block is \<open>-lang\<close>, not the declared language.
\<close>

theorem code_language_unknown_prefix:
  "render_content (Code (Some (js ''unknown-lang'')) (Some (js ''x = 1'')))
     = Inr (fence @ js ''-lang'' @ [NL] @ js ''x = 1'' @ [NL] @ fence)
   \<and> js ''-lang'' \<noteq> js ''unknown-lang''
   \<and> js ''unknown-lang'' \<noteq> js ''unknown''"
  by (simp add: tmpl_def js_def startsWith_def)

section \<open>The citation map\<close>

lemma citation_fold_lookup:
  "foldl citation_step Map.empty cs k =
     (if k = js ''__proto__'' then None
      else map_option citation_link
             (find (\<lambda>c. citation_key c = Some k \<and> truthy (cit_url c)) (rev cs)))"
proof (induction cs rule: rev_induct)
  case Nil
  then show ?case by simp
next
  case (snoc c cs)
  then show ?case
    by (auto simp: citation_step_def set_property_def split: option.splits)
qed

text \<open>
  What the citation map binds. An identifier other than \<open>__proto__\<close> is bound to the link
  of the last citation of the list whose key is that identifier and whose url is not
  empty, and is not bound when there is no such citation, so a citation without a key or
  without a url adds nothing. The key of a citation is its \<open>ref_id\<close> if that is not empty,
  else its \<open>source_id\<close> if that is not empty, else its \<open>id\<close> if that is not empty. The link
  is \<open>[label](url)\<close>, and the label is the title of the citation without the white space
  around it, or, when nothing is left of the title, what follows the last \<open>/\<close> of the url.
\<close>

lemma buildCitationMap_binding:
  "k \<noteq> js ''__proto__'' \<Longrightarrow>
   buildCitationMap meta k =
     (case citations meta of
        None \<Rightarrow> None
      | Some cs \<Rightarrow>
          map_option
            (\<lambda>c. js ''[''
                  @ (if trim (case cit_title c of None \<Rightarrow> [] | Some t \<Rightarrow> t) \<noteq> []
                     then trim (case cit_title c of None \<Rightarrow> [] | Some t \<Rightarrow> t)
                     else last (split_on 0x2F (the (cit_url c))))
                  @ js '']('' @ the (cit_url c) @ js '')'')
            (find (\<lambda>c. (if ref_id c \<noteq> None \<and> ref_id c \<noteq> Some [] then ref_id c
                         else if source_id c \<noteq> None \<and> source_id c \<noteq> Some [] then source_id c
                         else if cit_id c \<noteq> None \<and> cit_id c \<noteq> Some [] then cit_id c
                         else None) = Some k
                        \<and> cit_url c \<noteq> None \<and> cit_url c \<noteq> Some [])
                  (rev cs)))"
proof -
  have key: "\<And>c. citation_key c
                = (if ref_id c \<noteq> None \<and> ref_id c \<noteq> Some [] then ref_id c
                   else if source_id c \<noteq> None \<and> source_id c \<noteq> Some [] then source_id c
                   else if cit_id c \<noteq> None \<and> cit_id c \<noteq> Some [] then cit_id c
                   else None)"
    by (auto simp: citation_key_def truthy_def split: option.splits)
  have url: "\<And>c. truthy (cit_url c) = (cit_url c \<noteq> None \<and> cit_url c \<noteq> Some [])"
    by (auto simp: truthy_def split: option.splits)
  have link: "\<And>c. cit_url c \<noteq> None \<Longrightarrow>
                citation_link c =
                  js ''[''
                  @ (if trim (case cit_title c of None \<Rightarrow> [] | Some t \<Rightarrow> t) \<noteq> []
                     then trim (case cit_title c of None \<Rightarrow> [] | Some t \<Rightarrow> t)
                     else last (split_on 0x2F (the (cit_url c))))
                  @ js '']('' @ the (cit_url c) @ js '')''"
    by (auto simp: citation_link_def markdown_link_def safeTitle_def Let_def
             split: option.splits)
  assume k: "k \<noteq> js ''__proto__''"
  show ?thesis
  proof (cases "citations meta")
    case None
    then show ?thesis by (simp add: buildCitationMap_def)
  next
    case (Some cs)
    let ?P = "\<lambda>c. citation_key c = Some k \<and> truthy (cit_url c)"
    have "buildCitationMap meta k = map_option citation_link (find ?P (rev cs))"
      using Some k by (simp add: buildCitationMap_def citation_fold_lookup)
    also have "\<dots> = map_option
            (\<lambda>c. js ''[''
                  @ (if trim (case cit_title c of None \<Rightarrow> [] | Some t \<Rightarrow> t) \<noteq> []
                     then trim (case cit_title c of None \<Rightarrow> [] | Some t \<Rightarrow> t)
                     else last (split_on 0x2F (the (cit_url c))))
                  @ js '']('' @ the (cit_url c) @ js '')'') (find ?P (rev cs))"
    proof (cases "find ?P (rev cs)")
      case None
      then show ?thesis by simp
    next
      case (Some c)
      then have "?P c" by (metis (mono_tags, lifting) find_Some_iff)
      then have "cit_url c \<noteq> None" using url by blast
      then show ?thesis using Some link by simp
    qed
    finally show ?thesis using Some by (simp add: key url)
  qed
qed

lemma buildCitationMap_example:
  "buildCitationMap (citing
        [\<lparr>ref_id = Some (js ''r''), source_id = Some (js ''s''), cit_id = None,
          cit_url = Some (js ''https://a.org/x/page''), cit_title = None,
          cit_name = None, cit_detail = None\<rparr>,
         \<lparr>ref_id = Some [], source_id = None, cit_id = Some (js ''r''),
          cit_url = Some (js ''https://b.org''), cit_title = Some (js ''B''),
          cit_name = None, cit_detail = None\<rparr>,
         \<lparr>ref_id = Some (js ''r''), source_id = None, cit_id = None,
          cit_url = Some [], cit_title = Some (js ''C''),
          cit_name = None, cit_detail = None\<rparr>,
         \<lparr>ref_id = None, source_id = None, cit_id = None,
          cit_url = Some (js ''https://d.org''), cit_title = Some (js ''D''),
          cit_name = None, cit_detail = None\<rparr>]) (js ''r'')
   = Some (js ''[B](https://b.org)'')"
proof -
  have "js ''r'' \<noteq> js ''__proto__''" by (simp add: js_def)
  then show ?thesis
    by (simp add: buildCitationMap_binding citing_def no_metadata_def string_eval)
qed

text \<open>
  Claim C10. The claim has every key bound to the link of the last citation that has that
  key and a url. \<open>map[key] = ...\<close> binds nothing when the key is \<open>__proto__\<close>: for the one
  citation with \<open>ref_id\<close> \<open>__proto__\<close>, url \<open>https://a.org/x\<close> and title \<open>T\<close>, the map has no
  key at all, where the claim has \<open>__proto__\<close> bound to \<open>[T](https://a.org/x)\<close>; the same
  citation under the key \<open>r\<close> is bound.
\<close>

theorem buildCitationMap_proto_unbound:
  "buildCitationMap (citing [proto_citation (js ''__proto__'')]) = Map.empty
   \<and> buildCitationMap (citing [proto_citation (js ''r'')]) (js ''r'')
       = Some (js ''[T](https://a.org/x)'')"
  by (simp add: buildCitationMap_def citing_def no_metadata_def proto_citation_def
      citation_step_def citation_key_def truthy_def set_property_def citation_link_def
      markdown_link_def safeTitle_def string_eval)

section \<open>Citation placeholders\<close>

lemma cite_match_not_sentinel: "\<not> is_sentinel c \<Longrightarrow> cite_match (c # s) = None"
  by (simp add: cite_match_def split: list.splits)

lemma replace_all_plain:
  "list_all (\<lambda>x. \<not> is_sentinel x) s \<Longrightarrow>
     replace_all cite_match f (s @ t) = s @ replace_all cite_match f t"
  by (induction s) (simp_all add: cite_match_not_sentinel)

lemma takeWhile_ident:
  "list_all (\<lambda>x. \<not> is_sentinel x \<and> \<not> is_line_terminator x) ident \<Longrightarrow> is_sentinel c \<Longrightarrow>
     takeWhile (\<lambda>x. \<not> is_sentinel x) (ident @ c # t) = ident"
  by (induction ident) simp_all

lemma cite_match_token:
  assumes "is_sentinel a" "is_sentinel b" "is_sentinel c"
      and "list_all (\<lambda>x. \<not> is_sentinel x \<and> \<not> is_line_terminator x) ident"
  shows "cite_match ([a] @ js ''cite'' @ [b] @ ident @ [c] @ t) = Some (length ident + 7, ident)"
proof -
  have tw: "takeWhile (\<lambda>x. \<not> is_sentinel x) (ident @ c # t) = ident"
    using takeWhile_ident assms by blast
  have nl: "\<forall>x \<in> set ident. \<not> is_line_terminator x"
    using assms(4) by (simp add: list_all_iff)
  have "[a] @ js ''cite'' @ [b] @ ident @ [c] @ t
          = a # 0x63 # 0x69 # 0x74 # 0x65 # b # (ident @ c # t)"
    by (simp add: js_def)
  then show ?thesis
    using tw nl assms(1,2) by (simp add: cite_match_def js_def)
qed

lemma replace_all_token:
  assumes "is_sentinel a" "is_sentinel b" "is_sentinel c"
      and "list_all (\<lambda>x. \<not> is_sentinel x \<and> \<not> is_line_terminator x) ident"
  shows "replace_all cite_match f ([a] @ js ''cite'' @ [b] @ ident @ [c] @ t)
           = f ident @ replace_all cite_match f t"
proof -
  have m: "cite_match (a # (js ''cite'' @ [b] @ ident @ [c] @ t)) = Some (length ident + 7, ident)"
    using cite_match_token[OF assms] by simp
  have "drop (length (js ''cite'' @ [b] @ ident @ [c])) ((js ''cite'' @ [b] @ ident @ [c]) @ t) = t"
    by (metis append_eq_conv_conj)
  moreover have "length (js ''cite'' @ [b] @ ident @ [c]) = length ident + 7 - 1"
    by (simp add: js_def)
  ultimately have d: "drop (length ident + 7 - 1) (js ''cite'' @ [b] @ ident @ [c] @ t) = t"
    by (simp only: append_assoc)
  have "replace_all cite_match f (a # (js ''cite'' @ [b] @ ident @ [c] @ t))
          = f ident @ replace_all cite_match f (drop (length ident + 7 - 1) (js ''cite'' @ [b] @ ident @ [c] @ t))"
    using m by simp
  then show ?thesis using d by simp
qed

lemma replace_all_segments:
  "list_all segment_ok segs \<Longrightarrow>
     replace_all cite_match f (concat (map segment_text segs))
       = concat (map (\<lambda>seg. case seg of Plain s \<Rightarrow> s | Placeholder a b c ident \<Rightarrow> f ident) segs)"
proof (induction segs)
  case Nil
  then show ?case by simp
next
  case (Cons seg segs)
  then have ih: "replace_all cite_match f (concat (map segment_text segs))
       = concat (map (\<lambda>seg. case seg of Plain s \<Rightarrow> s | Placeholder a b c ident \<Rightarrow> f ident) segs)"
    by simp
  show ?case
  proof (cases seg)
    case (Plain s)
    then show ?thesis using Cons.prems ih by (simp add: replace_all_plain)
  next
    case (Placeholder a b c ident)
    then have ok: "is_sentinel a" "is_sentinel b" "is_sentinel c"
      "list_all (\<lambda>x. \<not> is_sentinel x \<and> \<not> is_line_terminator x) ident"
      using Cons.prems by simp_all
    show ?thesis
      using replace_all_token[OF ok, of f "concat (map segment_text segs)"] ih Placeholder
      by simp
  qed
qed

lemma replaceCitationPlaceholders_scan:
  "replaceCitationPlaceholders body m =
     replace_all cite_match
       (\<lambda>ident. case get_property m ident of None \<Rightarrow> [] | Some link \<Rightarrow> link) body"
  by (simp add: replaceCitationPlaceholders_def)

text \<open>
  In a text made of plain segments and citation placeholders, the plain segments are kept
  as they are and every placeholder is replaced by what \<open>citationMap[id] || ""\<close> is for
  its identifier. For an identifier that is a key of the map, and for one that is neither
  a key nor the name of an inherited property, that is what the description of the program
  says: the link stored for it, or nothing.
\<close>

lemma replaceCitationPlaceholders_segments:
  "list_all segment_ok segs \<Longrightarrow>
     replaceCitationPlaceholders (concat (map segment_text segs)) m
       = concat (map (\<lambda>seg. case seg of
                        Plain s \<Rightarrow> s
                      | Placeholder a b c ident \<Rightarrow>
                          (case get_property m ident of None \<Rightarrow> [] | Some link \<Rightarrow> link)) segs)"
  by (simp only: replaceCitationPlaceholders_scan replace_all_segments)

lemma get_property_own:
  "m ident \<noteq> None \<or> inherited ident = None \<Longrightarrow>
     (case get_property m ident of None \<Rightarrow> [] | Some link \<Rightarrow> link)
       = segment_resolved m (Placeholder a b c ident)"
  by (auto simp: get_property_def split: option.splits)

lemma replaceCitationPlaceholders_example:
  "replaceCitationPlaceholders
     (js ''See '' @ [0xE200] @ js ''cite'' @ [0xE202] @ js ''turn0search0'' @ [0xE201]
        @ js '' and '' @ [0xE200] @ js ''cite'' @ [0xE202] @ js ''turn0search9'' @ [0xE201]
        @ js ''.'')
     [js ''turn0search0'' \<mapsto> js ''[Page](https://a.org/page)'']
   = js ''See [Page](https://a.org/page) and .''"
proof -
  let ?segs = "[Plain (js ''See ''), Placeholder 0xE200 0xE202 0xE201 (js ''turn0search0''),
                Plain (js '' and ''), Placeholder 0xE200 0xE202 0xE201 (js ''turn0search9''),
                Plain (js ''.'')]"
  let ?m = "[js ''turn0search0'' \<mapsto> js ''[Page](https://a.org/page)'']"
  have ok: "list_all segment_ok ?segs"
    by (simp add: is_sentinel_def is_line_terminator_def js_def)
  have inh: "inherited (js ''turn0search9'') = None"
    by (simp add: inherited_def prototype_functions_def js_def)
  have "replaceCitationPlaceholders (concat (map segment_text ?segs)) ?m
          = concat (map (\<lambda>seg. case seg of
                        Plain s \<Rightarrow> s
                      | Placeholder a b c ident \<Rightarrow>
                          (case get_property ?m ident of None \<Rightarrow> [] | Some link \<Rightarrow> link)) ?segs)"
    using ok by (rule replaceCitationPlaceholders_segments)
  then show ?thesis using inh by (simp add: get_property_def) (simp add: js_def)
qed

text \<open>
  Claim C5. The claim has the empty string put for every placeholder whose identifier is
  absent from the map. \<open>citationMap[id]\<close> also finds the properties that the map inherits:
  with no citation at all, the placeholder with the identifier \<open>constructor\<close> in the text
  \<open>See <placeholder>.\<close> is replaced by the text of the function \<open>Object\<close>, where the claim
  has \<open>See .\<close>.
\<close>

theorem replaceCitationPlaceholders_inherited_name:
  "replaceCitationPlaceholders
     (js ''See '' @ [0xE200] @ js ''cite'' @ [0xE202] @ js ''constructor'' @ [0xE201] @ js ''.'')
     (buildCitationMap no_metadata)
   = js ''See function Object() { [native code] }.''
   \<and> buildCitationMap no_metadata (js ''constructor'') = None"
proof -
  let ?segs = "[Plain (js ''See ''), Placeholder 0xE200 0xE202 0xE201 (js ''constructor''),
                Plain (js ''.'')]"
  let ?m = "buildCitationMap no_metadata"
  have m: "?m = Map.empty" by (simp add: buildCitationMap_def no_metadata_def)
  have ok: "list_all segment_ok ?segs"
    by (simp add: is_sentinel_def is_line_terminator_def js_def)
  have inh: "inherited (js ''constructor'') = Some (js ''function Object() { [native code] }'')"
    by (simp add: inherited_def js_def)
  have "replaceCitationPlaceholders (concat (map segment_text ?segs)) ?m
          = concat (map (\<lambda>seg. case seg of
                        Plain s \<Rightarrow> s
                      | Placeholder a b c ident \<Rightarrow>
                          (case get_property ?m ident of None \<Rightarrow> [] | Some link \<Rightarrow> link)) ?segs)"
    using ok by (rule replaceCitationPlaceholders_segments)
  then show ?thesis using inh m by (simp add: get_property_def) (simp add: js_def)
qed

section \<open>Bare links\<close>

lemma startsWith_append: "startsWith (p @ s) p"
  by (simp add: startsWith_def)

lemma takeWhile_token:
  "list_all (\<lambda>c. \<not> is_space c) rest \<Longrightarrow> at_token_end post \<Longrightarrow>
     takeWhile (\<lambda>c. \<not> is_space c) (rest @ post) = rest"
  by (induction rest) (auto simp: at_token_end_def split: list.splits)

lemma url_match_token:
  assumes "scheme = js ''http://'' \<or> scheme = js ''https://''"
      and "rest \<noteq> []" "list_all (\<lambda>c. \<not> is_space c) rest" "at_token_end post"
  shows "url_match (scheme @ rest @ post) = Some (length (scheme @ rest), scheme @ rest)"
proof -
  have tw: "takeWhile (\<lambda>c. \<not> is_space c) (rest @ post) = rest"
    using takeWhile_token assms(3,4) by blast
  from assms(1) show ?thesis
  proof
    assume s: "scheme = js ''http://''"
    have "startsWith (js ''http://'' @ rest @ post) (js ''http://'')" by (rule startsWith_append)
    moreover have "length (js ''http://'') = 7" by (simp add: js_def)
    ultimately show ?thesis using tw assms(2) s by (simp add: url_match_def Let_def)
  next
    assume s: "scheme = js ''https://''"
    have a: "startsWith (js ''https://'' @ rest @ post) (js ''https://'')" by (rule startsWith_append)
    have b: "\<not> startsWith (js ''https://'' @ rest @ post) (js ''http://'')"
      by (simp add: startsWith_def js_def)
    have "length (js ''https://'') = 8" by (simp add: js_def)
    then show ?thesis using tw assms(2) s a b by (simp add: url_match_def Let_def)
  qed
qed

lemma replace_all_match:
  assumes "match (c # s) = Some (n, m)"
  shows "replace_all match f (c # s) = f m @ replace_all match f (drop (n - 1) s)"
  using assms by simp

lemma wrap_token:
  assumes "scheme = js ''http://'' \<or> scheme = js ''https://''"
      and "rest \<noteq> []" "list_all (\<lambda>c. \<not> is_space c) rest" "at_token_end post"
  shows "wrapLinksInMarkdown (scheme @ rest @ post)
           = js ''['' @ scheme @ rest @ js '']('' @ scheme @ rest @ js '')'' @ wrapLinksInMarkdown post"
proof -
  obtain c s where cs: "scheme @ rest = c # s" using assms(2) by (cases "scheme @ rest") auto
  then have full: "scheme @ rest @ post = c # (s @ post)" by (metis append_Cons append_assoc)
  have m: "url_match (c # (s @ post)) = Some (length (scheme @ rest), scheme @ rest)"
    using url_match_token[OF assms] by (simp only: full)
  have "length (scheme @ rest) = Suc (length s)" using arg_cong[OF cs, of length] by simp
  then have "length (scheme @ rest) - 1 = length s" by simp
  then have d: "drop (length (scheme @ rest) - 1) (s @ post) = post" by simp
  show ?thesis
    unfolding wrapLinksInMarkdown_def full
    using replace_all_match[of url_match c "s @ post" "length (scheme @ rest)" "scheme @ rest", OF m] d
    by simp
qed

lemma wrap_copy:
  "url_match (c # s) = None \<Longrightarrow> wrapLinksInMarkdown (c # s) = c # wrapLinksInMarkdown s"
  by (simp add: wrapLinksInMarkdown_def)

lemma url_match_no_scheme:
  "\<not> startsWith s (js ''http://'') \<Longrightarrow> \<not> startsWith s (js ''https://'') \<Longrightarrow> url_match s = None"
  by (simp add: url_match_def)

lemma url_match_bare_scheme:
  assumes "scheme = js ''http://'' \<or> scheme = js ''https://''" "at_token_end post"
  shows "url_match (scheme @ post) = None"
proof -
  have tw: "takeWhile (\<lambda>c. \<not> is_space c) post = []"
    using assms(2) by (cases post) (auto simp: at_token_end_def)
  from assms(1) show ?thesis
  proof
    assume s: "scheme = js ''http://''"
    have "startsWith (js ''http://'' @ post) (js ''http://'')" by (rule startsWith_append)
    moreover have "length (js ''http://'') = 7" by (simp add: js_def)
    ultimately show ?thesis using tw s by (simp add: url_match_def Let_def)
  next
    assume s: "scheme = js ''https://''"
    have a: "startsWith (js ''https://'' @ post) (js ''https://'')" by (rule startsWith_append)
    have b: "\<not> startsWith (js ''https://'' @ post) (js ''http://'')"
      by (simp add: startsWith_def js_def)
    have "length (js ''https://'') = 8" by (simp add: js_def)
    then show ?thesis using tw s a b by (simp add: url_match_def Let_def)
  qed
qed

lemma wrap_bare_scheme:
  assumes "scheme = js ''http://'' \<or> scheme = js ''https://''" "at_token_end post"
  shows "wrapLinksInMarkdown (scheme @ post) = scheme @ wrapLinksInMarkdown post"
proof -
  have copy: "\<And>c s. \<not> startsWith (c # s) (js ''http://'') \<Longrightarrow> \<not> startsWith (c # s) (js ''https://'')
      \<Longrightarrow> wrapLinksInMarkdown (c # s) = c # wrapLinksInMarkdown s"
    using wrap_copy url_match_no_scheme by blast
  from assms(1) show ?thesis
  proof
    assume s: "scheme = js ''http://''"
    have "url_match (js ''http://'' @ post) = None"
      using url_match_bare_scheme[of "js ''http://''" post] assms(2) by simp
    then have "wrapLinksInMarkdown (0x68 # (js ''ttp://'' @ post)) = 0x68 # wrapLinksInMarkdown (js ''ttp://'' @ post)"
      using wrap_copy[of "0x68" "js ''ttp://'' @ post"] by (simp add: js_def)
    moreover have "wrapLinksInMarkdown (js ''ttp://'' @ post) = js ''ttp://'' @ wrapLinksInMarkdown post"
      by (simp add: js_def copy startsWith_def)
    ultimately show ?thesis using s by (simp add: js_def)
  next
    assume s: "scheme = js ''https://''"
    have "url_match (js ''https://'' @ post) = None"
      using url_match_bare_scheme[of "js ''https://''" post] assms(2) by simp
    then have "wrapLinksInMarkdown (0x68 # (js ''ttps://'' @ post)) = 0x68 # wrapLinksInMarkdown (js ''ttps://'' @ post)"
      using wrap_copy[of "0x68" "js ''ttps://'' @ post"] by (simp add: js_def)
    moreover have "wrapLinksInMarkdown (js ''ttps://'' @ post) = js ''ttps://'' @ wrapLinksInMarkdown post"
      by (simp add: js_def copy startsWith_def)
    ultimately show ?thesis using s by (simp add: js_def)
  qed
qed

text \<open>
  Claim C9. Wherever \<open>http://\<close> or \<open>https://\<close> is followed by code units that are not
  white space, the scheme and every code unit up to the next white space or the end of the
  text are replaced by a link with that run as label and as target, whatever stands before
  the scheme and whatever punctuation ends the run; a scheme followed by nothing or by
  white space is kept, and so is every code unit where no scheme begins. The pass runs on
  the body in which the citation placeholders have been replaced, before the citation and
  search-result lists are appended, so the target of a resolved citation link is rewritten
  as well.
\<close>

theorem wrapLinksInMarkdown_tokens:
  "((scheme = js ''http://'' \<or> scheme = js ''https://'') \<and> rest \<noteq> []
      \<and> list_all (\<lambda>c. \<not> is_space c) rest \<and> at_token_end post \<longrightarrow>
      wrapLinksInMarkdown (scheme @ rest @ post)
        = js ''['' @ scheme @ rest @ js '']('' @ scheme @ rest @ js '')'' @ wrapLinksInMarkdown post)
   \<and> ((scheme = js ''http://'' \<or> scheme = js ''https://'') \<and> at_token_end post \<longrightarrow>
        wrapLinksInMarkdown (scheme @ post) = scheme @ wrapLinksInMarkdown post)
   \<and> (\<not> startsWith (c # s) (js ''http://'') \<and> \<not> startsWith (c # s) (js ''https://'') \<longrightarrow>
        wrapLinksInMarkdown (c # s) = c # wrapLinksInMarkdown s)
   \<and> wrapLinksInMarkdown [] = []
   \<and> post_process meta body
        = wrapLinksInMarkdown (replaceCitationPlaceholders body (buildCitationMap meta))
            @ extractCitations meta @ extractSearchResults meta"
proof -
  have 1: "(scheme = js ''http://'' \<or> scheme = js ''https://'') \<and> rest \<noteq> []
      \<and> list_all (\<lambda>c. \<not> is_space c) rest \<and> at_token_end post \<longrightarrow>
      wrapLinksInMarkdown (scheme @ rest @ post)
        = js ''['' @ scheme @ rest @ js '']('' @ scheme @ rest @ js '')'' @ wrapLinksInMarkdown post"
    using wrap_token by blast
  have 2: "\<not> startsWith (c # s) (js ''http://'') \<and> \<not> startsWith (c # s) (js ''https://'') \<longrightarrow>
        wrapLinksInMarkdown (c # s) = c # wrapLinksInMarkdown s"
    using wrap_copy url_match_no_scheme by blast
  have 3: "post_process meta body
        = wrapLinksInMarkdown (replaceCitationPlaceholders body (buildCitationMap meta))
            @ extractCitations meta @ extractSearchResults meta"
    by (simp add: post_process_def Let_def)
  have 4: "(scheme = js ''http://'' \<or> scheme = js ''https://'') \<and> at_token_end post \<longrightarrow>
        wrapLinksInMarkdown (scheme @ post) = scheme @ wrapLinksInMarkdown post"
    using wrap_bare_scheme by blast
  have 5: "wrapLinksInMarkdown [] = []" by (simp add: wrapLinksInMarkdown_def)
  show ?thesis using 1 2 3 4 5 by blast
qed

theorem wrapLinksInMarkdown_tokens_witness:
  "wrapLinksInMarkdown (js ''https://a.org/p) x'') = js ''[https://a.org/p)](https://a.org/p)) x''
   \<and> post_process
        \<lparr>is_visually_hidden_from_conversation = False, reasoning_status = None,
         model_slug = None,
         citations = Some
           [\<lparr>ref_id = Some (js ''r''), source_id = None, cit_id = None,
             cit_url = Some (js ''https://a.org/p''), cit_title = Some (js ''P''),
             cit_name = Some (js ''P''), cit_detail = Some (js ''d'')\<rparr>],
         search_result_groups = None,
         wrap_callout = False\<rparr>
        (js ''See '' @ [0xE200] @ js ''cite'' @ [0xE202] @ js ''r'' @ [0xE201] @ js ''.'')
      = js ''See [P]([https://a.org/p).](https://a.org/p).)'' @ [NL]
          @ js ''> [P](https://a.org/p)'' @ [NL, NL] @ js ''> d'' @ [NL]"
proof -
  have h: "list_all (\<lambda>c. \<not> is_space c) (js ''a.org/p)'')" "at_token_end (js '' x'')"
    "js ''a.org/p)'' \<noteq> []"
    by (simp_all add: js_def is_space_def at_token_end_def)
  have r: "wrapLinksInMarkdown (js '' x'') = js '' x''"
    by (simp add: wrapLinksInMarkdown_def url_match_def js_def startsWith_def)
  have a: "wrapLinksInMarkdown (js ''https://a.org/p) x'')
             = js ''[https://a.org/p)](https://a.org/p)) x''"
    using wrapLinksInMarkdown_tokens[of "js ''https://''" "js ''a.org/p)''" "js '' x''"] h r
    by (simp add: js_def)
  have b: "post_process
        \<lparr>is_visually_hidden_from_conversation = False, reasoning_status = None,
         model_slug = None,
         citations = Some
           [\<lparr>ref_id = Some (js ''r''), source_id = None, cit_id = None,
             cit_url = Some (js ''https://a.org/p''), cit_title = Some (js ''P''),
             cit_name = Some (js ''P''), cit_detail = Some (js ''d'')\<rparr>],
         search_result_groups = None,
         wrap_callout = False\<rparr>
        (js ''See '' @ [0xE200] @ js ''cite'' @ [0xE202] @ js ''r'' @ [0xE201] @ js ''.'')
      = js ''See [P]([https://a.org/p).](https://a.org/p).)'' @ [NL]
          @ js ''> [P](https://a.org/p)'' @ [NL, NL] @ js ''> d'' @ [NL]"
    by (simp add: post_process_def buildCitationMap_def citation_step_def set_property_def get_property_def
        citation_key_def truthy_def citation_link_def markdown_link_def safeTitle_def
        replaceCitationPlaceholders_def cite_match_def is_sentinel_def wrapLinksInMarkdown_def
        url_match_def extractCitations_def extractSearchResults_def tmpl_def string_eval)
  show ?thesis using a b by blast
qed

section \<open>Exceptions while rendering\<close>

lemma assemble_append:
  "assemble rt st (xs @ ys) =
     (case assemble rt st xs of Inl err \<Rightarrow> Inl err | Inr st' \<Rightarrow> assemble rt st' ys)"
  by (induction xs arbitrary: st) (auto split: sum.splits)

lemma assemble_step_raises:
  "node_message n = Some m \<Longrightarrow> nodeToMarkdown rt n (is_reasoning m) = Inl err \<Longrightarrow>
     assemble_step rt st n = Inl err"
  by (cases st) (auto simp: assemble_step_def)

lemma nodeToMarkdown_augments:
  "nodeToMarkdown_try n sh = Inl err \<Longrightarrow>
     nodeToMarkdown rt n sh
       = Inl (TypeError (error_message err @ [NL] @ js ''Node: '' @ JSON_stringify rt n))"
  by (cases err) (simp add: nodeToMarkdown_def augment_def error_message_def)

text \<open>
  Claim C8. When the rendering of a node raises, \<open>nodeToMarkdown\<close> raises the same
  exception with \<open>Node:\<close> and the serialized node appended to its message, on a line of
  its own; the loop over the messages does not catch it, so the conversion ends with that
  exception, the file of the conversation is not written and the conversations after it
  are not converted.
\<close>

theorem nodeToMarkdown_reraises:
  assumes "getOrderedNodeIds fuel (mapping conv) = Some ids"
      and "select_messages rt (mapping conv) ids = before @ n # after"
      and "assemble rt (False, []) before = Inr st"
      and "node_message n = Some m"
      and "nodeToMarkdown_try n (is_reasoning m) = Inl err"
  shows "nodeToMarkdown rt n (is_reasoning m)
           = Inl (TypeError (error_message err @ [NL] @ js ''Node: '' @ JSON_stringify rt n))
       \<and> chatgptToMarkdown fuel rt (conv # rest) sourceDir w
           = Some (Some (TypeError (error_message err @ [NL] @ js ''Node: ''
                                    @ JSON_stringify rt n)), w)"
proof -
  let ?e = "TypeError (error_message err @ [NL] @ js ''Node: '' @ JSON_stringify rt n)"
  have 1: "nodeToMarkdown rt n (is_reasoning m) = Inl ?e"
    using assms(5) by (rule nodeToMarkdown_augments)
  have "assemble_step rt st n = Inl ?e"
    using assms(4) 1 by (rule assemble_step_raises)
  then have "assemble rt (False, []) (before @ n # after) = Inl ?e"
    using assms(3) by (simp add: assemble_append)
  then have "render_messages rt (select_messages rt (mapping conv) ids) = Inl ?e"
    using assms(2) by (simp add: render_messages_def)
  then have "markdownContent fuel rt conv = Some (Inl ?e)"
    using assms(1) by (simp add: markdownContent_def)
  then have "convert_conversation fuel rt sourceDir w conv = Some (Inl ?e)"
    by (simp add: convert_conversation_def)
  then have "chatgptToMarkdown fuel rt (conv # rest) sourceDir w = Some (Some ?e, w)"
    by simp
  then show ?thesis using 1 by blast
qed

theorem nodeToMarkdown_reraises_witness:
  "nodeToMarkdown example_runtime
       (example_node ''assistant'' (Code None (Some (js ''x = 1''))) no_metadata []) False
     = Inl (TypeError (error_message (cannot_read ''replace'') @ [NL] @ js ''Node: '' @ js ''{...}''))
   \<and> chatgptToMarkdown 5 example_runtime [example_conversation failing_mapping] (js ''out'')
         empty_world
     = Some (Some (TypeError (error_message (cannot_read ''replace'') @ [NL]
                              @ js ''Node: '' @ js ''{...}'')), empty_world)"
proof -
  let ?u = "example_node ''user'' (Text (Some [js ''hello''])) no_metadata [''a'']"
  let ?a = "example_node ''assistant'' (Code None (Some (js ''x = 1''))) no_metadata []"
  let ?m = "\<lparr>msg_author = \<lparr>role = js ''assistant'', author_name = None\<rparr>,
             msg_content = Some (Code None (Some (js ''x = 1''))), msg_metadata = no_metadata\<rparr>"
  have ids: "getOrderedNodeIds 5 (mapping (example_conversation failing_mapping))
               = Some [js ''client-created-root'', js ''u'', js ''a'']"
    by code_simp
  have sel: "select_messages example_runtime (mapping (example_conversation failing_mapping))
               [js ''client-created-root'', js ''u'', js ''a''] = [?u] @ ?a # []"
    by code_simp
  have pre: "assemble example_runtime (False, []) [?u]
               = Inr (False, [js ''## user'' @ [NL, NL] @ js ''    hello'' @ [NL] @ [NL, NL]])"
    by code_simp
  have msg: "node_message ?a = Some ?m"
    by (simp add: example_node_def)
  have nr: "is_reasoning ?m = False"
    by (simp add: is_reasoning_def no_metadata_def)
  have raise: "nodeToMarkdown_try ?a (is_reasoning ?m) = Inl (cannot_read ''replace'')"
    by (simp add: nodeToMarkdown_try_def example_node_def)
  have st: "JSON_stringify example_runtime ?a = js ''{...}''"
    by (simp add: example_runtime_def)
  show ?thesis
    using nodeToMarkdown_reraises[OF ids sel pre msg raise, of "[]" "js ''out''" empty_world]
    by (simp only: nr st)
qed

section \<open>Internal tool commands\<close>

lemma shouldIncludeMessage_None: "\<not> shouldIncludeMessage rt None"
  by (simp add: shouldIncludeMessage_def)

lemma select_messages_included:
  "n \<in> set (select_messages rt M ids) \<Longrightarrow> shouldIncludeMessage rt (Some n)"
proof -
  assume "n \<in> set (select_messages rt M ids)"
  then obtain x where x: "shouldIncludeMessage rt x" "n = the x"
    by (auto simp: select_messages_def)
  then have "x \<noteq> None" using shouldIncludeMessage_None by metis
  then show ?thesis using x by auto
qed

lemma select_messages_skip:
  "\<not> shouldIncludeMessage rt (map_of M i) \<Longrightarrow>
     select_messages rt M (ids1 @ i # ids2) = select_messages rt M (ids1 @ ids2)"
  by (simp add: select_messages_def)

lemma search_query_signature:
  "regex_test (key_signature ''search_query'') search_query_text"
  by (simp add: search_query_text_def key_signature_def quoted_def string_eval)

lemma replace_node_lookup:
  "map_of (replace_node i nd' M) k
     = (if k = i then map_option (\<lambda>n. nd') (map_of M k) else map_of M k)"
  by (induction M) (auto simp: replace_node_def)

lemma rootId_replace_node: "rootId (replace_node i nd' M) = rootId M"
proof -
  have "(map_of (replace_node i nd' M) (js ''client-created-root'') \<noteq> None)
          = (map_of M (js ''client-created-root'') \<noteq> None)"
    by (simp add: replace_node_lookup)
  moreover have "(case replace_node i nd' M of [] \<Rightarrow> None | (k, n) # rest \<Rightarrow> Some k)
                   = (case M of [] \<Rightarrow> None | (k, n) # rest \<Rightarrow> Some k)"
    by (cases M) (auto simp: replace_node_def)
  ultimately show ?thesis by (simp only: rootId_def)
qed

lemma walk_children_cong:
  shows "(\<And>k. map_option children (map_of M' k) = map_option children (map_of M k)) \<Longrightarrow>
           walk n M v acc = walk n M' v acc"
    and "(\<And>k. map_option children (map_of M' k) = map_option children (map_of M k)) \<Longrightarrow>
           walk_each n M cs acc' = walk_each n M' cs acc'"
proof (induction n M v acc and n M cs acc' rule: walk_walk_each.induct)
  case (1 M i ordered)
  then show ?case by simp
next
  case (2 n M i ordered)
  show ?case
  proof (cases "map_of M i")
    case None
    then have "map_of M' i = None" using "2.prems"[of i] by simp
    then show ?thesis using None by simp
  next
    case (Some nd)
    then obtain nd' where nd': "map_of M' i = Some nd'" "children nd' = children nd"
      using "2.prems"[of i] by auto
    show ?thesis
    proof (cases "i = []")
      case True
      then show ?thesis by simp
    next
      case False
      then show ?thesis using "2.IH"[OF False Some "2.prems"] Some nd' by simp
    qed
  qed
next
  case (3 n M ordered)
  then show ?case by simp
next
  case (4 n M c cs ordered)
  have "walk n M c ordered = walk n M' c ordered" using "4.IH"(1) "4.prems" by blast
  moreover have "\<And>o1. walk n M c ordered = Some o1 \<Longrightarrow> walk_each n M cs o1 = walk_each n M' cs o1"
    using "4.IH"(2) "4.prems" by blast
  ultimately show ?case by (simp split: option.splits)
qed

lemma getOrderedNodeIds_replace_node:
  assumes "map_of M i = Some nd" "children nd' = children nd"
  shows "getOrderedNodeIds n (replace_node i nd' M) = getOrderedNodeIds n M"
proof -
  have same: "\<And>k. map_option children (map_of (replace_node i nd' M) k)
                    = map_option children (map_of M k)"
    using assms by (simp add: replace_node_lookup)
  have "\<And>r. walk n (replace_node i nd' M) r [] = walk n M r []"
    using walk_children_cong(1)[of "replace_node i nd' M" M, OF same] by simp
  then show ?thesis
    by (simp add: getOrderedNodeIds_def rootId_replace_node cong: option.case_cong)
qed

lemma select_messages_replace_node:
  assumes "\<not> shouldIncludeMessage rt (map_of M i)" "\<not> shouldIncludeMessage rt (Some nd')"
  shows "select_messages rt (replace_node i nd' M) ids = select_messages rt M ids"
proof -
  have ex: "\<And>k. shouldIncludeMessage rt (map_of (replace_node i nd' M) k)
                  = shouldIncludeMessage rt (map_of M k)"
    using assms by (cases "map_of M i") (auto simp: replace_node_lookup)
  have eq: "\<And>k. shouldIncludeMessage rt (map_of M k) \<Longrightarrow>
                  map_of (replace_node i nd' M) k = map_of M k"
    using assms by (auto simp: replace_node_lookup)
  show ?thesis
    unfolding select_messages_def
    by (induction ids) (auto simp: ex eq)
qed

text \<open>
  Claim C6, amended. A node whose message has the role \<open>assistant\<close> and whose raw text,
  trimmed as the filter reads it, parses as an object with a banned key, or is the text
  \<open>{"search_query": "x"}\<close>, does not pass the filter. It is never among the messages that
  are rendered, and the rendered sequence of messages is what it is without the node: the
  document is the front matter, the title and the rendering of the other messages. The
  document depends on the message through the model name of the front matter only, which is
  read from every node of the mapping, whether it passes the filter or not: when the node
  is replaced by any other node that has the same children and does not pass the filter
  either, and the model name stays what it is, the document stays what it is.
\<close>

theorem tool_command_excluded:
  assumes "node_message nd = Some m"
      and "role (msg_author m) = js ''assistant''"
      and "(\<exists>keys. JSON_parse rt (suspectText (msg_content m)) = Some (JObject keys)
                   \<and> list_ex (\<lambda>k. k \<in> set banned) keys)
           \<or> suspectText (msg_content m) = search_query_text"
  shows "\<not> shouldIncludeMessage rt (Some nd)
       \<and> nd \<notin> set (select_messages rt M ids)
       \<and> (map_of M i = Some nd \<longrightarrow>
            render_messages rt (select_messages rt M (ids1 @ i # ids2))
              = render_messages rt (select_messages rt M (ids1 @ ids2)))
       \<and> (map_of (mapping conv) i = Some nd
            \<and> getOrderedNodeIds fuel (mapping conv) = Some (ids1 @ i # ids2) \<longrightarrow>
            markdownContent fuel rt conv
              = Some (case render_messages rt (select_messages rt (mapping conv) (ids1 @ ids2)) of
                        Inl err \<Rightarrow> Inl err
                      | Inr messages \<Rightarrow>
                          Inr (frontMatter rt conv @ [NL, NL]
                               @ js ''# '' @ wrapHtmlTagsInBackticks (title conv) @ [NL]
                               @ [NL, NL] @ messages)))
       \<and> (map_of (mapping conv) i = Some nd
            \<and> children nd' = children nd \<and> \<not> shouldIncludeMessage rt (Some nd')
            \<and> modelName (replace_node i nd' (mapping conv)) = modelName (mapping conv) \<longrightarrow>
            markdownContent fuel rt (conv\<lparr>mapping := replace_node i nd' (mapping conv)\<rparr>)
              = markdownContent fuel rt conv)"
proof -
  have "has_banned_key rt (suspectText (msg_content m))
        \<or> regex_test (key_signature ''search_query'') (suspectText (msg_content m))"
    using assms(3) search_query_signature by (auto simp: has_banned_key_def)
  then have 1: "\<not> shouldIncludeMessage rt (Some nd)"
    using assms(1,2) by (auto simp: shouldIncludeMessage_def Let_def)
  then have 2: "nd \<notin> set (select_messages rt M ids)"
    using select_messages_included by blast
  have 3: "map_of M i = Some nd \<longrightarrow>
            render_messages rt (select_messages rt M (ids1 @ i # ids2))
              = render_messages rt (select_messages rt M (ids1 @ ids2))"
    using 1 select_messages_skip[of rt M i ids1 ids2] by auto
  have 4: "map_of (mapping conv) i = Some nd
            \<and> getOrderedNodeIds fuel (mapping conv) = Some (ids1 @ i # ids2) \<longrightarrow>
            markdownContent fuel rt conv
              = Some (case render_messages rt (select_messages rt (mapping conv) (ids1 @ ids2)) of
                        Inl err \<Rightarrow> Inl err
                      | Inr messages \<Rightarrow>
                          Inr (frontMatter rt conv @ [NL, NL]
                               @ js ''# '' @ wrapHtmlTagsInBackticks (title conv) @ [NL]
                               @ [NL, NL] @ messages))"
    using 1 select_messages_skip[of rt "mapping conv" i ids1 ids2]
    by (auto simp: markdownContent_def)
  have 5: "map_of (mapping conv) i = Some nd
            \<and> children nd' = children nd \<and> \<not> shouldIncludeMessage rt (Some nd')
            \<and> modelName (replace_node i nd' (mapping conv)) = modelName (mapping conv) \<longrightarrow>
            markdownContent fuel rt (conv\<lparr>mapping := replace_node i nd' (mapping conv)\<rparr>)
              = markdownContent fuel rt conv"
  proof
    assume h: "map_of (mapping conv) i = Some nd
            \<and> children nd' = children nd \<and> \<not> shouldIncludeMessage rt (Some nd')
            \<and> modelName (replace_node i nd' (mapping conv)) = modelName (mapping conv)"
    let ?M' = "replace_node i nd' (mapping conv)"
    have ids: "getOrderedNodeIds fuel ?M' = getOrderedNodeIds fuel (mapping conv)"
      using h by (simp add: getOrderedNodeIds_replace_node)
    have sel: "\<And>ids. select_messages rt ?M' ids = select_messages rt (mapping conv) ids"
      using h 1 by (simp add: select_messages_replace_node)
    have fm: "frontMatter rt (conv\<lparr>mapping := ?M'\<rparr>) = frontMatter rt conv"
      using h by (simp add: frontMatter_def)
    show "markdownContent fuel rt (conv\<lparr>mapping := ?M'\<rparr>) = markdownContent fuel rt conv"
      by (simp add: markdownContent_def ids sel fm cong: option.case_cong sum.case_cong)
  qed
  show ?thesis using 1 2 3 4 5 by blast
qed

theorem tool_command_excluded_witness:
  "\<not> shouldIncludeMessage example_runtime (map_of tool_mapping (js ''s''))
   \<and> \<not> shouldIncludeMessage example_runtime (map_of tool_mapping (js ''o''))
   \<and> render_messages example_runtime (select_messages example_runtime tool_mapping
        ([js ''client-created-root'', js ''u''] @ js ''s'' # [js ''o'', js ''a'']))
     = Inr (js ''## user'' @ [NL, NL] @ js ''    hello'' @ [NL] @ [NL, NL]
            @ js ''## assistant'' @ [NL, NL] @ js ''hi'' @ [NL, NL])
   \<and> markdownContent 6 example_runtime
        ((example_conversation tool_mapping)
           \<lparr>mapping := replace_node (js ''s'') (structural_node [''o''])
                         (mapping (example_conversation tool_mapping))\<rparr>)
     = markdownContent 6 example_runtime (example_conversation tool_mapping)"
proof -
  let ?s = "example_node ''assistant'' (Code (Some (js ''unknown'')) (Some search_query_text)) no_metadata [''o'']"
  let ?o = "example_node ''assistant'' (Text (Some [js '' {'' @ quoted ''open'' @ js '': 1} ''])) no_metadata [''a'']"
  let ?ms = "\<lparr>msg_author = \<lparr>role = js ''assistant'', author_name = None\<rparr>,
              msg_content = Some (Code (Some (js ''unknown'')) (Some search_query_text)),
              msg_metadata = no_metadata\<rparr>"
  let ?mo = "\<lparr>msg_author = \<lparr>role = js ''assistant'', author_name = None\<rparr>,
              msg_content = Some (Text (Some [js '' {'' @ quoted ''open'' @ js '': 1} ''])),
              msg_metadata = no_metadata\<rparr>"
  let ?conv = "example_conversation tool_mapping"
  have s1: "node_message ?s = Some ?ms" by (simp add: example_node_def)
  have s2: "role (msg_author ?ms) = js ''assistant''" by simp
  have s3: "suspectText (msg_content ?ms) = search_query_text" by code_simp
  have o1: "node_message ?o = Some ?mo" by (simp add: example_node_def)
  have o2: "role (msg_author ?mo) = js ''assistant''" by simp
  have o3: "JSON_parse example_runtime (suspectText (msg_content ?mo)) = Some (JObject [js ''open''])"
    by code_simp
  have o4: "list_ex (\<lambda>k. k \<in> set banned) [js ''open'']" by code_simp
  have ms: "map_of tool_mapping (js ''s'') = Some ?s" by code_simp
  have mo: "map_of tool_mapping (js ''o'') = Some ?o" by code_simp
  have r: "render_messages example_runtime (select_messages example_runtime tool_mapping
        ([js ''client-created-root'', js ''u''] @ [js ''o'', js ''a'']))
     = Inr (js ''## user'' @ [NL, NL] @ js ''    hello'' @ [NL] @ [NL, NL]
            @ js ''## assistant'' @ [NL, NL] @ js ''hi'' @ [NL, NL])"
    by code_simp
  have c1: "map_of (mapping ?conv) (js ''s'') = Some ?s"
    using ms by (simp add: example_conversation_def)
  have c2: "children (structural_node [''o'']) = children ?s"
    by (simp add: structural_node_def example_node_def)
  have c3: "\<not> shouldIncludeMessage example_runtime (Some (structural_node [''o'']))"
    by (simp add: shouldIncludeMessage_def structural_node_def)
  have c4: "modelName (replace_node (js ''s'') (structural_node [''o'']) (mapping ?conv))
              = modelName (mapping ?conv)"
    by code_simp
  have a: "\<not> shouldIncludeMessage example_runtime (Some ?s)
       \<and> render_messages example_runtime (select_messages example_runtime tool_mapping
            ([js ''client-created-root'', js ''u''] @ js ''s'' # [js ''o'', js ''a'']))
         = render_messages example_runtime (select_messages example_runtime tool_mapping
            ([js ''client-created-root'', js ''u''] @ [js ''o'', js ''a'']))"
    using tool_command_excluded[OF s1 s2, of example_runtime tool_mapping "[]" "js ''s''"
            "[js ''client-created-root'', js ''u'']" "[js ''o'', js ''a'']"] s3 ms
    by blast
  have b: "\<not> shouldIncludeMessage example_runtime (Some ?o)"
    using tool_command_excluded[OF o1 o2, of example_runtime tool_mapping "[]" "js ''o''" "[]" "[]"]
          o3 o4
    by blast
  have c: "markdownContent 6 example_runtime
             (?conv\<lparr>mapping := replace_node (js ''s'') (structural_node [''o'']) (mapping ?conv)\<rparr>)
           = markdownContent 6 example_runtime ?conv"
    using tool_command_excluded[OF s1 s2, of example_runtime "[]" "[]" "js ''s''" "[]" "[]"
            ?conv 6 "structural_node [''o'']"] s3 c1 c2 c3 c4
    by blast
  show ?thesis using a b c ms mo r by simp
qed

text \<open>
  The model name of the front matter is the first \<open>model_slug\<close> of the mapping that is not
  empty, whether its message passes the filter or not. In the conversation where the only
  message with a \<open>model_slug\<close> is the search query of the assistant, that message is not
  rendered, and its \<open>model_slug\<close> is in the document; without the message, the node being
  kept, it is not.
\<close>

theorem tool_command_model_name_counterexample:
  "\<not> shouldIncludeMessage example_runtime (map_of slug_mapping (js ''s''))
   \<and> JSON_parse example_runtime search_query_text = Some (JObject [js ''search_query''])
   \<and> markdownContent 6 example_runtime (example_conversation slug_mapping)
       = Some (Inr (slug_document (js ''gpt-4o'')))
   \<and> markdownContent 6 example_runtime
        (example_conversation (replace_node (js ''s'') (structural_node [''a'']) slug_mapping))
       = Some (Inr (slug_document []))
   \<and> slug_document (js ''gpt-4o'') \<noteq> slug_document []"
  by code_simp

section \<open>Time stamps of the files\<close>

lemma utimes_after_writeFile:
  "files (utimes p a m (writeFile p text w)) p = Some \<lparr>content = text, atime = a, mtime = m\<rparr>"
  by (simp add: utimes_def writeFile_def)

lemma convert_conversation_times:
  assumes "convert_conversation fuel rt sourceDir w conv = Some (Inr w')"
  shows "map_option (\<lambda>f. (atime f, mtime f)) (files w' (filePath rt sourceDir conv))
           = Some (create_time conv, update_time conv)"
proof -
  obtain tx where "w' = utimes (filePath rt sourceDir conv) (create_time conv) (update_time conv)
                            (writeFile (filePath rt sourceDir conv) tx w)"
    using assms by (auto simp: convert_conversation_def split: option.splits sum.splits)
  then show ?thesis by (simp add: utimes_after_writeFile)
qed

lemma convert_conversation_cli_times:
  assumes "convert_conversation_cli fuel rt sourceDir w conv = Some (Inr w')"
  shows "map_option (\<lambda>f. (atime f, mtime f)) (files w' (filePath rt sourceDir conv))
           = Some (update_time conv, create_time conv)"
proof -
  obtain tx where "w' = utimes (filePath rt sourceDir conv) (update_time conv) (create_time conv)
                            (writeFile (filePath rt sourceDir conv) tx w)"
    using assms by (auto simp: convert_conversation_cli_def split: option.splits sum.splits)
  then show ?thesis by (simp add: utimes_after_writeFile)
qed

text \<open>
  Claim C2. In \<open>index.js\<close> the file of a conversation gets the creation time as its
  access time and the update time as its modification time, whatever the clock says
  (\<open>convert_conversation_times\<close>). The implementation in \<open>cli.js\<close> passes the two
  arguments in the other order: the file of the example conversation, created at 1000 and
  updated at 2000, gets the access time 2000 and the modification time 1000.
\<close>

theorem utimes_swapped_in_cli:
  "(case chatgptToMarkdown_cli 6 example_runtime [example_conversation reasoning_mapping]
           (js ''out'') empty_world of
      Some (None, w) \<Rightarrow> map_option (\<lambda>f. (atime f, mtime f)) (files w example_path)
    | _ \<Rightarrow> None)
   = Some (update_time (example_conversation reasoning_mapping),
           create_time (example_conversation reasoning_mapping))
   \<and> create_time (example_conversation reasoning_mapping) = 1000
   \<and> update_time (example_conversation reasoning_mapping) = 2000"
  by code_simp

lemma utimes_in_index:
  "(case chatgptToMarkdown 6 example_runtime [example_conversation reasoning_mapping]
           (js ''out'') empty_world of
      Some (None, w) \<Rightarrow> map_option (\<lambda>f. (atime f, mtime f)) (files w example_path)
    | _ \<Rightarrow> None)
   = Some (create_time (example_conversation reasoning_mapping),
           update_time (example_conversation reasoning_mapping))"
  by code_simp

section \<open>The end of a callout\<close>

lemma assemble_step_normal:
  "node_message n = Some m \<Longrightarrow> \<not> is_reasoning m \<Longrightarrow> nodeToMarkdown rt n False = Inr md \<Longrightarrow>
     assemble_step rt (inCallout, parts) n = Inr (inCallout, parts @ [md])"
  by (simp add: assemble_step_def)

lemma assemble_step_cli_normal:
  "node_message n = Some m \<Longrightarrow> \<not> is_reasoning m \<Longrightarrow> nodeToMarkdown_cli rt n False = Inr md \<Longrightarrow>
     assemble_step_cli rt (inCallout, parts) n
       = Inr (False, parts @ (if inCallout then [[NL]] else []) @ [md])"
  by (simp add: assemble_step_cli_def)

text \<open>
  Claim C1. In \<open>index.js\<close> a normal message leaves the state of the assembler as it is and
  pushes nothing but its own rendering (\<open>assemble_step_normal\<close>), where the loop of
  \<open>cli.js\<close> first pushes the closing blank line and leaves the callout
  (\<open>assemble_step_cli_normal\<close>). For the run of three reasoning messages of the example,
  followed by an answer, \<open>index.js\<close> produces one outer block with three nested blocks and
  two separators, and then the heading of the answer right after the last line of the
  callout: the closing blank line comes only at the end of the document.
\<close>

theorem callout_not_closed_before_normal:
  "map_option (\<lambda>ids. render_messages example_runtime
                        (select_messages example_runtime reasoning_mapping ids))
     (getOrderedNodeIds 6 reasoning_mapping)
   = Some (Inr (js ''> [!info]- Reasoning'' @ [NL]
                @ js ''>> [!example]- Plan'' @ [NL]
                @ js ''>> step one'' @ [NL]
                @ js ''> '' @ [NL]
                @ js ''>> [!example]- Reasoning'' @ [NL]
                @ js ''>> step two'' @ [NL]
                @ js ''> '' @ [NL]
                @ js ''>> [!quote]- Links'' @ [NL]
                @ js ''>> [https://d.org/x](https://d.org/x)'' @ [NL]
                @ js ''## assistant'' @ [NL, NL] @ js ''answer'' @ [NL, NL]
                @ [NL]))"
  by code_simp

lemma callout_closed_in_cli:
  "map_option (\<lambda>ids. render_messages_cli example_runtime
                        (select_messages example_runtime reasoning_mapping ids))
     (getOrderedNodeIds 6 reasoning_mapping)
   = Some (Inr (js ''> [!info]- Reasoning'' @ [NL]
                @ js ''>> [!example]- Reasoning'' @ [NL]
                @ js ''>> ##### Plan'' @ [NL]
                @ js ''>> step one'' @ [NL]
                @ js ''> '' @ [NL]
                @ js ''>> [!example]- Reasoning'' @ [NL]
                @ js ''>> step two'' @ [NL]
                @ js ''> '' @ [NL]
                @ js ''>> [!example]- Reasoning'' @ [NL]
                @ js ''>> [https://d.org/x](https://d.org/x)'' @ [NL]
                @ [NL]
                @ js ''## assistant'' @ [NL, NL] @ js ''answer'' @ [NL, NL]))"
  by code_simp

section \<open>The traversal\<close>


lemma follow_child:
  "v \<noteq> [] \<Longrightarrow> map_of M v = Some nd \<Longrightarrow> i < length (children nd) \<Longrightarrow>
     follow M v (i # p) = follow M (children nd ! i) p"
  by simp


























text \<open>
  A declared child that is no key of the mapping but the name of an inherited property is
  pushed, once for each time it is declared.
\<close>

lemma getOrderedNodeIds_inherited_child:
  "getOrderedNodeIds 5 inherited_child_mapping
     = Some [js ''client-created-root'', js ''a'', js ''constructor'', js ''constructor'']"
  by code_simp

text \<open>
  In the mapping where the root is a child of its own child, \<open>walk\<close> exceeds every room
  for nested calls.
\<close>

lemma cyclic_walk:
  "walk n cyclic_mapping (js ''client-created-root'') acc = None
   \<and> walk n cyclic_mapping (js ''a'') acc = None"
proof (induction n arbitrary: acc)
  case 0
  then show ?case by simp
next
  case (Suc n)
  have l: "map_of cyclic_mapping (js ''client-created-root'') = Some (structural_node [''a''])"
    "map_of cyclic_mapping (js ''a'') = Some (structural_node [''client-created-root''])"
    by (simp_all add: cyclic_mapping_def js_def)
  have ne: "js ''client-created-root'' \<noteq> []" "js ''a'' \<noteq> []" by (simp_all add: js_def)
  show ?case using Suc l ne by (simp add: structural_node_def)
qed

lemma getOrderedNodeIds_cycle: "getOrderedNodeIds n cyclic_mapping = None"
proof -
  have "map_of cyclic_mapping (js ''client-created-root'') \<noteq> None"
    by (simp add: cyclic_mapping_def)
  then show ?thesis by (simp add: getOrderedNodeIds_def rootId_def cyclic_walk)
qed

end
